theory Spec2Isabelle
  imports Main "HOL-Library.List_Lexorder" "HOL-Library.AList"
begin

section \<open>Python values and text\<close>

text \<open>
  A Python \<^verbatim>\<open>str\<close> is a sequence of Unicode code points, so text is a list of
  natural numbers; \<open>ustr\<close> writes an ASCII literal as such a list. The objects that
  reach \<^verbatim>\<open>clean_text\<close> are strings or anything else (\<^verbatim>\<open>None\<close>, a number,
  a NaN cell of a table, some other object).
\<close>

type_synonym ustring = "nat list"

definition ustr :: "string \<Rightarrow> ustring" where
  "ustr s = map of_char s"

datatype pyobj = PyNone | PyInt int | PyStr ustring | PyOther nat

text \<open>
  Whitespace as \<^verbatim>\<open>\s\<close> of the \<^verbatim>\<open>re\<close> module (on \<^verbatim>\<open>str\<close> patterns) and
  \<^verbatim>\<open>str.strip()\<close> see it: the code points for which \<^verbatim>\<open>str.isspace\<close> holds.
\<close>

definition is_space :: "nat \<Rightarrow> bool" where
  "is_space c \<longleftrightarrow>
     (9 \<le> c \<and> c \<le> 13) \<or> (28 \<le> c \<and> c \<le> 32) \<or> c = 133 \<or> c = 160 \<or> c = 5760 \<or>
     (8192 \<le> c \<and> c \<le> 8202) \<or> c = 8232 \<or> c = 8233 \<or> c = 8239 \<or> c = 8287 \<or> c = 12288"

definition is_upper :: "nat \<Rightarrow> bool" where
  "is_upper c \<longleftrightarrow> 65 \<le> c \<and> c \<le> 90"

definition is_lower :: "nat \<Rightarrow> bool" where
  "is_lower c \<longleftrightarrow> 97 \<le> c \<and> c \<le> 122"

definition is_alpha :: "nat \<Rightarrow> bool" where
  "is_alpha c \<longleftrightarrow> is_upper c \<or> is_lower c"

definition is_digit :: "nat \<Rightarrow> bool" where
  "is_digit c \<longleftrightarrow> 48 \<le> c \<and> c \<le> 57"

definition is_ascii :: "ustring \<Rightarrow> bool" where
  "is_ascii s \<longleftrightarrow> list_all (\<lambda>c. c < 128) s"

definition ascii_lower :: "nat \<Rightarrow> nat" where
  "ascii_lower c = (if is_upper c then c + 32 else c)"

text \<open>
  The Unicode character database is a library, not part of the repository. What
  \<^verbatim>\<open>unicodedata.normalize('NFKD', s)\<close> and \<^verbatim>\<open>s.lower()\<close> return for text that
  holds a code point outside ASCII is a parameter of the model (a record of two
  functions). On ASCII text both are fixed: no ASCII code point has a decomposition
  or a combining class, so normalisation returns the text as it is, and lower-casing
  maps \<^verbatim>\<open>A-Z\<close> to \<^verbatim>\<open>a-z\<close> and nothing else.
\<close>

record unicode_db =
  nfkd_other :: "ustring \<Rightarrow> ustring"
  lower_other :: "ustring \<Rightarrow> ustring"

definition normalize_NFKD :: "unicode_db \<Rightarrow> ustring \<Rightarrow> ustring" where
  "normalize_NFKD U s = (if is_ascii s then s else nfkd_other U s)"

definition str_lower :: "unicode_db \<Rightarrow> ustring \<Rightarrow> ustring" where
  "str_lower U s = (if is_ascii s then map ascii_lower s else lower_other U s)"

definition strip :: "ustring \<Rightarrow> ustring" where
  "strip s = rev (dropWhile is_space (rev (dropWhile is_space s)))"

section \<open>Regular-expression substitution\<close>

text \<open>
  \<^verbatim>\<open>re.sub(pattern, repl, text)\<close> for a pattern that never matches the empty string:
  the text is scanned from the left; where the pattern matches at the current position
  (the matcher returns the length of the match) the replacement is written and the scan
  goes on after the match, otherwise the character is copied and the scan moves one on.
\<close>

fun re_sub :: "(ustring \<Rightarrow> nat option) \<Rightarrow> ustring \<Rightarrow> ustring \<Rightarrow> ustring" where
  "re_sub m r [] = []"
| "re_sub m r (c # cs) =
     (case m (c # cs) of
        Some n \<Rightarrow> r @ re_sub m r (drop (n - 1) cs)
      | None \<Rightarrow> c # re_sub m r cs)"

text \<open>The four patterns of \<^verbatim>\<open>clean_text\<close>, each as the matcher at the head of a text.\<close>

definition entity_match :: "ustring \<Rightarrow> nat option" where
  \<comment> \<open>\<^verbatim>\<open>&[a-zA-Z]+;\<close>\<close>
  "entity_match s =
     (case s of
        [] \<Rightarrow> None
      | c # cs \<Rightarrow>
          (let letters = takeWhile is_alpha cs in
           if c = 38 \<and> letters \<noteq> [] \<and> take 1 (dropWhile is_alpha cs) = [59]
           then Some (length letters + 2) else None))"

definition non_space :: "nat \<Rightarrow> bool" where
  "non_space c \<longleftrightarrow> \<not> is_space c"

definition url_match :: "ustring \<Rightarrow> nat option" where
  \<comment> \<open>\<^verbatim>\<open>http\S+|www\.\S+\<close>\<close>
  "url_match s =
     (let rest = takeWhile non_space (drop 4 s) in
      if take 4 s = ustr ''http'' \<and> rest \<noteq> [] then Some (4 + length rest)
      else if take 4 s = ustr ''www.'' \<and> rest \<noteq> [] then Some (4 + length rest)
      else None)"

definition special_match :: "ustring \<Rightarrow> nat option" where
  \<comment> \<open>\<^verbatim>\<open>[^a-zA-Z0-9\s]\<close>\<close>
  "special_match s =
     (case s of
        [] \<Rightarrow> None
      | c # cs \<Rightarrow> if is_alpha c \<or> is_digit c \<or> is_space c then None else Some 1)"

definition spaces_match :: "ustring \<Rightarrow> nat option" where
  \<comment> \<open>\<^verbatim>\<open>\s+\<close>\<close>
  "spaces_match s =
     (if takeWhile is_space s \<noteq> [] then Some (length (takeWhile is_space s)) else None)"

section \<open>The text normalizer\<close>

definition clean_str :: "unicode_db \<Rightarrow> ustring \<Rightarrow> ustring" where
  "clean_str U s0 =
     (let s1 = normalize_NFKD U s0;
          s2 = re_sub entity_match (ustr '' '') s1;
          s3 = re_sub url_match [] s2;
          s4 = re_sub special_match (ustr '' '') s3;
          s5 = re_sub spaces_match (ustr '' '') s4;
          s6 = str_lower U s5
      in strip s6)"

definition clean_text :: "unicode_db \<Rightarrow> pyobj \<Rightarrow> ustring" where
  "clean_text U t = (case t of PyStr s \<Rightarrow> clean_str U s | _ \<Rightarrow> [])"

text \<open>
  The characters a cleaned text may hold, the predicate "the pattern matches somewhere
  in the text", and the shape the whitespace of a cleaned text has (every whitespace
  character is a single blank between two other characters or at an end).
\<close>

definition allowed :: "nat \<Rightarrow> bool" where
  "allowed c \<longleftrightarrow> is_lower c \<or> is_digit c \<or> c = 32"

fun has_match :: "(ustring \<Rightarrow> nat option) \<Rightarrow> ustring \<Rightarrow> bool" where
  "has_match m [] = False"
| "has_match m (c # cs) = (m (c # cs) \<noteq> None \<or> has_match m cs)"

fun single_spaced :: "ustring \<Rightarrow> bool" where
  "single_spaced [] = True"
| "single_spaced (c # cs) =
     (if is_space c then c = 32 \<and> (cs = [] \<or> \<not> is_space (hd cs)) \<and> single_spaced cs
      else single_spaced cs)"

section \<open>The date range enumerator\<close>

text \<open>
  \<^verbatim>\<open>generate_date_urls\<close> works on calendar dates (the driver passes
  \<^verbatim>\<open>datetime\<close> values at midnight): a year from 1 to 9999, a month and a day of the
  proleptic Gregorian calendar. Adding \<^verbatim>\<open>timedelta(days=1)\<close> to the last
  representable day raises \<^verbatim>\<open>OverflowError\<close>; comparison is by year, month and day;
  \<^verbatim>\<open>(end - start).days\<close> is the difference of the ordinals of the two days;
  \<^verbatim>\<open>strftime("%Y%m%d")\<close> is the C library's: with glibc (and CPython before 3.13)
  \<^verbatim>\<open>%Y\<close> writes the year in decimal without padding, so \<^verbatim>\<open>999\<close> for the year
  999, and \<^verbatim>\<open>%m\<close> and \<^verbatim>\<open>%d\<close> write two digits each.
\<close>

datatype py_error = OverflowError

record date =
  year :: nat
  month :: nat
  day :: nat

definition is_leap :: "nat \<Rightarrow> bool" where
  "is_leap y \<longleftrightarrow> y mod 4 = 0 \<and> (y mod 100 \<noteq> 0 \<or> y mod 400 = 0)"

definition days_in_month :: "nat \<Rightarrow> nat \<Rightarrow> nat" where
  "days_in_month y m =
     (if m = 2 then (if is_leap y then 29 else 28)
      else if m = 4 \<or> m = 6 \<or> m = 9 \<or> m = 11 then 30 else 31)"

definition valid_date :: "date \<Rightarrow> bool" where
  "valid_date d \<longleftrightarrow>
     1 \<le> year d \<and> year d \<le> 9999 \<and> 1 \<le> month d \<and> month d \<le> 12 \<and>
     1 \<le> day d \<and> day d \<le> days_in_month (year d) (month d)"

definition days_before_year :: "nat \<Rightarrow> int" where
  "days_before_year y =
     (let p = int y - 1 in p * 365 + p div 4 - p div 100 + p div 400)"

definition days_before_month :: "nat \<Rightarrow> nat \<Rightarrow> int" where
  "days_before_month y m =
     int ([0, 31, 59, 90, 120, 151, 181, 212, 243, 273, 304, 334] ! (m - 1)) +
     (if m > 2 \<and> is_leap y then 1 else 0)"

definition toordinal :: "date \<Rightarrow> int" where
  "toordinal d = days_before_year (year d) + days_before_month (year d) (month d) + int (day d)"

definition days_between :: "date \<Rightarrow> date \<Rightarrow> int" where
  "days_between start_date end_date = toordinal end_date - toordinal start_date"

definition date_le :: "date \<Rightarrow> date \<Rightarrow> bool" where
  "date_le a b \<longleftrightarrow>
     year a < year b \<or> (year a = year b \<and>
       (month a < month b \<or> (month a = month b \<and> day a \<le> day b)))"

definition add_day :: "date \<Rightarrow> py_error + date" where
  "add_day d =
     (if day d < days_in_month (year d) (month d) then Inr (d\<lparr>day := day d + 1\<rparr>)
      else if month d < 12 then Inr (d\<lparr>month := month d + 1, day := 1\<rparr>)
      else if year d < 9999 then Inr (d\<lparr>year := year d + 1, month := 1, day := 1\<rparr>)
      else Inl OverflowError)"

definition digit :: "nat \<Rightarrow> nat" where
  "digit n = 48 + n mod 10"

definition two_digits :: "nat \<Rightarrow> ustring" where
  "two_digits n = [digit (n div 10), digit n]"

function decimal :: "nat \<Rightarrow> ustring" where
  "decimal n = (if n < 10 then [digit n] else decimal (n div 10) @ [digit n])"
  by pat_completeness auto
termination
  by (relation "measure id") auto

declare decimal.simps [simp del]

definition strftime_Ymd :: "date \<Rightarrow> ustring" where
  "strftime_Ymd d = decimal (year d) @ two_digits (month d) @ two_digits (day d)"

definition listing_url :: "ustring \<Rightarrow> ustring" where
  "listing_url date_str =
     ustr ''https://www.ghanaweb.com/GhanaHomePage/business/browse.archive.php?date='' @ date_str"

function gen_loop :: "date \<Rightarrow> date \<Rightarrow> (ustring \<times> ustring) list \<Rightarrow> py_error + (ustring \<times> ustring) list" where
  "gen_loop current_date end_date urls =
     (if date_le current_date end_date then
        (let date_str = strftime_Ymd current_date;
             url = listing_url date_str;
             urls' = urls @ [(date_str, url)]
         in case add_day current_date of
              Inl e \<Rightarrow> Inl e
            | Inr next_date \<Rightarrow> gen_loop next_date end_date urls')
      else Inr urls)"
  by pat_completeness auto
termination
proof (relation "measures [\<lambda>(c, e, u). 9999 - year c, \<lambda>(c, e, u). 12 - month c, \<lambda>(c, e, u). 31 - day c]")
  show "wf (measures [\<lambda>(c, e, u). 9999 - year c, \<lambda>(c, e, u). 12 - month c, \<lambda>(c, e, u). 31 - day c])"
    by simp
next
  fix current_date end_date :: date and urls xb :: "(ustring \<times> ustring) list" and xc
  assume a: "add_day current_date = Inr xc"
  have b: "days_in_month (year current_date) (month current_date) \<le> 31"
    by (simp add: days_in_month_def)
  from a b have "year current_date < year xc \<and> year xc \<le> 9999 \<or>
      year xc = year current_date \<and> (month current_date < month xc \<and> month xc \<le> 12 \<or>
        month xc = month current_date \<and> day current_date < day xc \<and> day xc \<le> 31)"
    by (auto simp: add_day_def split: if_splits)
  then show "((xc, end_date, xb), current_date, end_date, urls)
       \<in> measures [\<lambda>(c, e, u). 9999 - year c, \<lambda>(c, e, u). 12 - month c, \<lambda>(c, e, u). 31 - day c]"
    by auto
qed

definition generate_date_urls :: "date \<Rightarrow> date \<Rightarrow> py_error + (ustring \<times> ustring) list" where
  "generate_date_urls start_date end_date = gen_loop start_date end_date []"

declare gen_loop.simps [simp del]

text \<open>
  The number of places at which a pattern occurs in a text, the last representable
  date, and the pair the loop appends for a day.
\<close>

fun occurrences :: "ustring \<Rightarrow> ustring \<Rightarrow> nat" where
  "occurrences p [] = (if p = [] then 1 else 0)"
| "occurrences p (c # cs) = (if take (length p) (c # cs) = p then 1 else 0) + occurrences p cs"

definition max_date :: date where
  "max_date = \<lparr>year = 9999, month = 12, day = 31\<rparr>"

definition entry :: "date \<Rightarrow> ustring \<times> ustring" where
  "entry d = (strftime_Ymd d, listing_url (strftime_Ymd d))"

section \<open>Pages, the listing extractor and the article fetcher\<close>

text \<open>
  A parsed page as BeautifulSoup holds it: an element has a name, the tokens of its
  \<^verbatim>\<open>class\<close> attribute (the parser splits that attribute at whitespace; no tokens when
  the attribute is missing), its other attributes and its children; a text node holds
  a string. The document itself is an element named \<^verbatim>\<open>[document]\<close>. Comments and
  the other kinds of string that \<^verbatim>\<open>get_text\<close> skips are left out.
\<close>

datatype node =
    Tag ustring "ustring list" "(ustring \<times> ustring) list" "node list"
  | NavigableString ustring

text \<open>
  \<^verbatim>\<open>find_all\<close> walks the descendants of an element in document order and keeps
  those that match; \<^verbatim>\<open>find\<close> returns the first of them or \<^verbatim>\<open>None\<close>. A
  \<^verbatim>\<open>class_\<close> filter matches an element when one of its class tokens is the given
  string or the tokens joined by single blanks are.
\<close>

fun descendants :: "node \<Rightarrow> node list" where
  "descendants (Tag name classes attrs children) = concat (map (\<lambda>c. c # descendants c) children)"
| "descendants (NavigableString s) = []"

fun join :: "ustring \<Rightarrow> ustring list \<Rightarrow> ustring" where
  "join sep [] = []"
| "join sep [x] = x"
| "join sep (x # y # ys) = x @ sep @ join sep (y # ys)"

definition is_tag :: "ustring \<Rightarrow> node \<Rightarrow> bool" where
  "is_tag name n = (case n of Tag nm _ _ _ \<Rightarrow> nm = name | NavigableString _ \<Rightarrow> False)"

definition has_class :: "ustring \<Rightarrow> node \<Rightarrow> bool" where
  "has_class v n =
     (case n of
        Tag _ classes _ _ \<Rightarrow> v \<in> set classes \<or> join (ustr '' '') classes = v
      | NavigableString _ \<Rightarrow> False)"

definition get_attr :: "node \<Rightarrow> ustring \<Rightarrow> ustring option" where
  "get_attr n k = (case n of Tag _ _ attrs _ \<Rightarrow> map_of attrs k | NavigableString _ \<Rightarrow> None)"

definition find_all :: "(node \<Rightarrow> bool) \<Rightarrow> node \<Rightarrow> node list" where
  "find_all P n = filter P (descendants n)"

definition find_tag :: "(node \<Rightarrow> bool) \<Rightarrow> node \<Rightarrow> node option" where
  "find_tag P n = (case find_all P n of [] \<Rightarrow> None | x # _ \<Rightarrow> Some x)"

definition is_article_container :: "node \<Rightarrow> bool" where
  "is_article_container n \<longleftrightarrow> is_tag (ustr ''div'') n \<and> has_class (ustr ''left_artl_list more_news'') n"

definition is_upper_div :: "node \<Rightarrow> bool" where
  "is_upper_div n \<longleftrightarrow> is_tag (ustr ''div'') n \<and> has_class (ustr ''upper'') n"

definition is_article_paragraph :: "node \<Rightarrow> bool" where
  "is_article_paragraph n \<longleftrightarrow> is_tag (ustr ''p'') n \<and> get_attr n (ustr ''id'') = Some (ustr ''article-123'')"

definition is_content_area :: "node \<Rightarrow> bool" where
  "is_content_area n \<longleftrightarrow> is_tag (ustr ''div'') n \<and> has_class (ustr ''article-content-area'') n"

text \<open>
  An article reference is a \<^verbatim>\<open>dict\<close> from keys to strings, kept in insertion order.
  The network and the parser are not part of the repository: \<open>fetch url\<close> stands for
  \<^verbatim>\<open>requests.get(url)\<close>, \<^verbatim>\<open>raise_for_status()\<close> and the parse, and is either the
  parsed page or, when one of them raises an exception \<^verbatim>\<open>e\<close>, the text \<^verbatim>\<open>str(e)\<close>.
  The keyword test is
  \<^verbatim>\<open>re.search(r'cocoa', title, re.IGNORECASE)\<close>: the only code points that match
  the letters of the pattern without regard to case are their ASCII upper-case and
  lower-case forms.
\<close>

type_synonym pydict = "(ustring \<times> ustring) list"

text \<open>
  An exception that leaves a function is kept as the name of its class and its text
  \<^verbatim>\<open>str(e)\<close>; the text of \<^verbatim>\<open>KeyError('url')\<close> is \<^verbatim>\<open>'url'\<close>, with the quotes.

  Both functions print: the listing extractor in its handler, the article fetcher
  before it tries the content area and in its handler. No \<^verbatim>\<open>try\<close> encloses a
  \<^verbatim>\<open>print\<close> of a handler, so an exception of it leaves the function. The standard
  output is not part of the repository: \<open>out s\<close> stands for \<^verbatim>\<open>print(s)\<close> and is the
  exception it raises, if any. \<open>utf8_stdout\<close> is a standard output with the encoding
  UTF-8 and the error handler \<^verbatim>\<open>strict\<close>, the default: it writes a text without
  surrogate code points (U+D800 to U+DFFF), and for any other text it raises
  \<^verbatim>\<open>UnicodeEncodeError\<close>, whose text names the first surrogate and its position, or
  the positions of the first run of surrogates when more than one follow each other.
\<close>

datatype py_exception = PyException (exc_class: ustring) (exc_str: ustring)

definition KeyError_url :: py_exception where
  "KeyError_url = PyException (ustr ''KeyError'') (39 # ustr ''url'' @ [39])"

definition is_surrogate :: "nat \<Rightarrow> bool" where
  "is_surrogate c \<longleftrightarrow> 55296 \<le> c \<and> c \<le> 57343"

definition hex_digit :: "nat \<Rightarrow> nat" where
  "hex_digit n = (if n mod 16 < 10 then 48 + n mod 16 else 87 + n mod 16)"

definition hex4 :: "nat \<Rightarrow> ustring" where
  "hex4 c = [hex_digit (c div 4096), hex_digit (c div 256), hex_digit (c div 16), hex_digit c]"

definition surrogates_not_allowed :: "nat \<Rightarrow> nat \<Rightarrow> nat \<Rightarrow> py_exception" where
  "surrogates_not_allowed c start stop =
     PyException (ustr ''UnicodeEncodeError'')
       (39 # ustr ''utf-8'' @ 39 # ustr '' codec can'' @ 39 # ustr ''t encode '' @
        (if stop = start + 1
         then ustr ''character '' @ 39 # 92 # 117 # hex4 c @ 39 # ustr '' in position '' @ decimal start
         else ustr ''characters in position '' @ decimal start @ ustr ''-'' @ decimal (stop - 1)) @
        ustr '': surrogates not allowed'')"

definition utf8_stdout :: "ustring \<Rightarrow> py_exception option" where
  "utf8_stdout s =
     (case dropWhile (\<lambda>c. \<not> is_surrogate c) s of
        [] \<Rightarrow> None
      | c # rest \<Rightarrow>
          (let start = length (takeWhile (\<lambda>c. \<not> is_surrogate c) s) in
           Some (surrogates_not_allowed c start (start + 1 + length (takeWhile is_surrogate rest)))))"

definition cocoa_match :: "ustring \<Rightarrow> nat option" where
  "cocoa_match s = (if map ascii_lower (take 5 s) = ustr ''cocoa'' then Some 5 else None)"

definition re_search :: "(ustring \<Rightarrow> nat option) \<Rightarrow> ustring \<Rightarrow> bool" where
  "re_search m s = has_match m s"

fun collect_articles :: "ustring \<Rightarrow> node list \<Rightarrow> pydict list \<Rightarrow> pydict list" where
  "collect_articles date_str [] articles = articles"
| "collect_articles date_str (item # items) articles =
     (case find_tag (is_tag (ustr ''a'')) item of
        None \<Rightarrow> collect_articles date_str items articles
      | Some link \<Rightarrow>
          (case (get_attr link (ustr ''href''), get_attr link (ustr ''title'')) of
             (Some href, Some title) \<Rightarrow>
               if re_search cocoa_match title
               then collect_articles date_str items
                      (articles @
                        [[(ustr ''date'', date_str),
                          (ustr ''title'', title),
                          (ustr ''url'',
                             if take 4 href = ustr ''http'' then href
                             else ustr ''https://www.ghanaweb.com'' @ href)]])
               else collect_articles date_str items articles
           | _ \<Rightarrow> collect_articles date_str items articles))"

definition get_articles_from_listing_page ::
    "(ustring \<Rightarrow> py_exception option) \<Rightarrow> (ustring \<Rightarrow> ustring + node) \<Rightarrow> ustring \<Rightarrow> ustring \<Rightarrow>
     py_exception + pydict list" where
  "get_articles_from_listing_page out fetch url date_str =
     (case fetch url of
        Inl e \<Rightarrow>
          (case out (ustr ''Error processing '' @ url @ ustr '': '' @ e) of
             Some raised \<Rightarrow> Inl raised
           | None \<Rightarrow> Inr [])
      | Inr soup \<Rightarrow>
          (case find_tag is_article_container soup of
             None \<Rightarrow> Inr []
           | Some article_container \<Rightarrow>
               (case find_tag is_upper_div article_container of
                  None \<Rightarrow> Inr []
                | Some upper_div \<Rightarrow>
                    (case find_tag (is_tag (ustr ''ul'')) upper_div of
                       None \<Rightarrow> Inr []
                     | Some article_list \<Rightarrow>
                         Inr (collect_articles date_str (find_all (is_tag (ustr ''li'')) article_list) [])))))"

text \<open>
  \<^verbatim>\<open>get_text(strip=True)\<close> strips every text node below the element, drops the ones
  that become empty, and joins the rest with the empty separator. When the key
  \<^verbatim>\<open>'url'\<close> is missing, the lookup raises \<^verbatim>\<open>KeyError\<close> inside the
  \<^verbatim>\<open>try\<close>, and the handler raises it again when it formats its message.
  \<open>get_article_content_except\<close> is the handler of the article fetcher, entered with
  the text of the exception it caught: an exception of the fetch, or of the
  \<^verbatim>\<open>print\<close> before the content area is tried.
\<close>

definition all_strings :: "node \<Rightarrow> ustring list" where
  "all_strings n = concat (map (\<lambda>d. case d of NavigableString s \<Rightarrow> [s] | _ \<Rightarrow> []) (descendants n))"

definition get_text_strip :: "node \<Rightarrow> ustring" where
  "get_text_strip n = concat (filter (\<lambda>s. s \<noteq> []) (map strip (all_strings n)))"

definition get_article_content_except ::
    "(ustring \<Rightarrow> py_exception option) \<Rightarrow> pydict \<Rightarrow> ustring \<Rightarrow> ustring \<Rightarrow> py_exception + pydict" where
  "get_article_content_except out article_info url e =
     (case out (ustr ''Error fetching article '' @ url @ ustr '': '' @ e) of
        Some raised \<Rightarrow> Inl raised
      | None \<Rightarrow> Inr (AList.update (ustr ''content'') (ustr ''Error: '' @ e) article_info))"

definition get_article_content ::
    "(ustring \<Rightarrow> py_exception option) \<Rightarrow> (ustring \<Rightarrow> ustring + node) \<Rightarrow> pydict \<Rightarrow>
     py_exception + pydict" where
  "get_article_content out fetch article_info =
     (case map_of article_info (ustr ''url'') of
        None \<Rightarrow> Inl KeyError_url
      | Some url \<Rightarrow>
          (case fetch url of
             Inl e \<Rightarrow> get_article_content_except out article_info url e
           | Inr soup \<Rightarrow>
               (case find_tag is_article_paragraph soup of
                  Some article_paragraph \<Rightarrow>
                    Inr (AList.update (ustr ''content'') (get_text_strip article_paragraph) article_info)
                | None \<Rightarrow>
                    (case out (ustr ''No content found for '' @ url @ ustr '' - trying alternative selectors'') of
                       Some raised \<Rightarrow> get_article_content_except out article_info url (exc_str raised)
                     | None \<Rightarrow>
                         (case find_tag is_content_area soup of
                            Some article_div \<Rightarrow>
                              (let paragraphs = find_all (is_tag (ustr ''p'')) article_div in
                               if paragraphs \<noteq> []
                               then Inr (AList.update (ustr ''content'')
                                      (join (ustr '' '') (map get_text_strip paragraphs)) article_info)
                               else Inr (AList.update (ustr ''content'') (ustr ''Content not found'')
                                      article_info))
                          | None \<Rightarrow>
                              Inr (AList.update (ustr ''content'') (ustr ''Content not found'')
                                 article_info))))))"

text \<open>
  Notions of the specification, to compare the code with: a text contains a keyword
  without regard to case; a link starts with a URI scheme (a letter, then letters,
  digits, \<^verbatim>\<open>+\<close>, \<^verbatim>\<open>-\<close> or \<^verbatim>\<open>.\<close>, then a colon); the text of an element, trimmed
  as a whole.
\<close>

definition ci_contains :: "ustring \<Rightarrow> ustring \<Rightarrow> bool" where
  "ci_contains kw s \<longleftrightarrow> (\<exists>u v. map ascii_lower s = u @ kw @ v)"

definition scheme_char :: "nat \<Rightarrow> bool" where
  "scheme_char c \<longleftrightarrow> is_alpha c \<or> is_digit c \<or> c = 43 \<or> c = 45 \<or> c = 46"

definition starts_with_scheme :: "ustring \<Rightarrow> bool" where
  "starts_with_scheme s =
     (case s of [] \<Rightarrow> False | c # cs \<Rightarrow> is_alpha c \<and> take 1 (dropWhile scheme_char cs) = [58])"

definition trimmed_text :: "node \<Rightarrow> ustring" where
  "trimmed_text n = strip (concat (all_strings n))"

text \<open>Example pages.\<close>

definition listing_page_example :: node where
  "listing_page_example =
     Tag (ustr ''[document]'') [] []
       [Tag (ustr ''div'') [ustr ''left_artl_list'', ustr ''more_news''] []
         [Tag (ustr ''div'') [ustr ''upper''] []
           [Tag (ustr ''ul'') [] []
             [Tag (ustr ''li'') [] []
                [Tag (ustr ''a'') []
                   [(ustr ''href'', ustr ''/business/1.php''), (ustr ''title'', ustr ''X Cocoa Prices Rise'')]
                   [NavigableString (ustr ''X Cocoa Prices Rise'')]],
              Tag (ustr ''li'') [] []
                [Tag (ustr ''a'') []
                   [(ustr ''href'', ustr ''/business/2.php''), (ustr ''title'', ustr ''Coffee Outlook'')]
                   [NavigableString (ustr ''Coffee Outlook'')]],
              Tag (ustr ''li'') [] []
                [Tag (ustr ''a'') []
                   [(ustr ''href'', ustr ''https://example.com/3''), (ustr ''title'', ustr ''COCOA board'')]
                   [NavigableString (ustr ''COCOA board'')]]]]]]"

definition listing_list_example :: node where
  "listing_list_example =
     Tag (ustr ''ul'') [] []
       [Tag (ustr ''li'') [] []
          [Tag (ustr ''a'') []
             [(ustr ''href'', ustr ''ftp://example.com/cocoa.pdf''), (ustr ''title'', ustr ''Cocoa report'')]
             [NavigableString (ustr ''Cocoa report'')]]]"

definition listing_page_ftp :: node where
  "listing_page_ftp =
     Tag (ustr ''[document]'') [] []
       [Tag (ustr ''div'') [ustr ''left_artl_list'', ustr ''more_news''] []
         [Tag (ustr ''div'') [ustr ''upper''] [] [listing_list_example]]]"

definition page_without_container :: node where
  "page_without_container =
     Tag (ustr ''[document]'') [] []
       [Tag (ustr ''div'') [ustr ''header''] [] [NavigableString (ustr ''No news today'')]]"

definition page_without_list :: node where
  "page_without_list =
     Tag (ustr ''[document]'') [] []
       [Tag (ustr ''div'') [ustr ''left_artl_list'', ustr ''more_news''] []
         [Tag (ustr ''div'') [ustr ''upper''] [] [NavigableString (ustr ''No news today'')]]]"

definition content_area_example :: node where
  "content_area_example =
     Tag (ustr ''div'') [ustr ''article-content-area''] []
       [Tag (ustr ''p'') [] []
          [NavigableString (ustr '' Cocoa ''),
           Tag (ustr ''b'') [] [] [NavigableString (ustr ''prices'')],
           NavigableString (ustr '' rose '')],
        Tag (ustr ''p'') [] [] [NavigableString (ustr '' today '')]]"

definition article_page_example :: node where
  "article_page_example = Tag (ustr ''[document]'') [] [] [content_area_example]"

section \<open>The normalize and score stage\<close>

text \<open>
  A table as pandas holds it: the row labels and the columns in their order, each column
  a list of cells. \<^verbatim>\<open>clean_dataframe_add_sentiment\<close> assigns to columns of a table
  in place and rebinds its variable to new tables, so tables live in a store and are
  named by their address: \<^verbatim>\<open>df.copy()\<close>, a selection by a boolean mask and
  \<^verbatim>\<open>reset_index(drop=True)\<close> each put a new table into the store, an assignment
  to a column changes the table at an address. The function returns the store and the
  address of its result, or the exception it raises (\<^verbatim>\<open>KeyError\<close> when there is no
  \<^verbatim>\<open>content\<close> column). The sentiment analyser is a library: \<open>score x\<close> stands
  for \<^verbatim>\<open>sia.polarity_scores(str(x))['compound']\<close>. In the mask a cell that is
  not a string compares unequal to the empty string. \<open>export_rows\<close> is the projection
  \<^verbatim>\<open>df[['date', 'sentiment_score']]\<close> that the driver writes out, row by row.
\<close>

record dataframe =
  index :: "int list"
  columns :: "(ustring \<times> pyobj list) list"

datatype df_error = KeyError ustring | InvalidReference

type_synonym store = "dataframe list"

definition column :: "dataframe \<Rightarrow> ustring \<Rightarrow> pyobj list option" where
  "column d k = map_of (columns d) k"

definition set_column :: "ustring \<Rightarrow> pyobj list \<Rightarrow> dataframe \<Rightarrow> dataframe" where
  "set_column k vs d = d\<lparr>columns := AList.update k vs (columns d)\<rparr>"

definition select_rows :: "bool list \<Rightarrow> 'a list \<Rightarrow> 'a list" where
  "select_rows keep xs = map snd (filter fst (zip keep xs))"

definition boolean_mask :: "bool list \<Rightarrow> dataframe \<Rightarrow> dataframe" where
  "boolean_mask keep d =
     \<lparr>index = select_rows keep (index d),
      columns = map (\<lambda>(k, vs). (k, select_rows keep vs)) (columns d)\<rparr>"

definition reset_index :: "dataframe \<Rightarrow> dataframe" where
  "reset_index d = d\<lparr>index := map int [0..<length (index d)]\<rparr>"

definition strip_not_empty :: "pyobj \<Rightarrow> bool" where
  "strip_not_empty v = (case v of PyStr s \<Rightarrow> strip s \<noteq> [] | _ \<Rightarrow> True)"

definition clean_dataframe_add_sentiment ::
    "unicode_db \<Rightarrow> (pyobj \<Rightarrow> pyobj) \<Rightarrow> store \<Rightarrow> nat \<Rightarrow> store \<times> (df_error + nat)" where
  "clean_dataframe_add_sentiment U score h df =
     (if df < length h then
        (let cleaned_df = length h;
             h1 = h @ [h ! df];
             h2 = (case column (h1 ! cleaned_df) (ustr ''title'') of
                     Some vs \<Rightarrow> h1[cleaned_df := set_column (ustr ''title'')
                                  (map (\<lambda>v. PyStr (clean_text U v)) vs) (h1 ! cleaned_df)]
                   | None \<Rightarrow> h1);
             h3 = (case column (h2 ! cleaned_df) (ustr ''content'') of
                     Some vs \<Rightarrow> h2[cleaned_df := set_column (ustr ''content'')
                                  (map (\<lambda>v. PyStr (clean_text U v)) vs) (h2 ! cleaned_df)]
                   | None \<Rightarrow> h2)
         in case column (h3 ! cleaned_df) (ustr ''content'') of
              None \<Rightarrow> (h3, Inl (KeyError (ustr ''content'')))
            | Some content \<Rightarrow>
                (let filtered = length h3;
                     h4 = h3 @ [boolean_mask (map strip_not_empty content) (h3 ! cleaned_df)];
                     renumbered = length h4;
                     h5 = h4 @ [reset_index (h4 ! filtered)]
                 in case column (h5 ! renumbered) (ustr ''content'') of
                      None \<Rightarrow> (h5, Inl (KeyError (ustr ''content'')))
                    | Some kept \<Rightarrow>
                        (h5[renumbered := set_column (ustr ''sentiment_score'') (map score kept)
                                            (h5 ! renumbered)],
                         Inr renumbered)))
      else (h, Inl InvalidReference))"

definition export_rows :: "dataframe \<Rightarrow> df_error + (pyobj \<times> pyobj) list" where
  "export_rows d =
     (case column d (ustr ''date'') of
        None \<Rightarrow> Inl (KeyError (ustr ''date''))
      | Some dates \<Rightarrow>
          (case column d (ustr ''sentiment_score'') of
             None \<Rightarrow> Inl (KeyError (ustr ''sentiment_score''))
           | Some scores \<Rightarrow> Inr (zip dates scores)))"

definition table_example :: dataframe where
  "table_example =
     \<lparr>index = [0, 1, 2],
      columns =
        [(ustr ''date'', [PyOther 1, PyOther 1, PyOther 2]),
         (ustr ''title'', [PyStr (ustr ''Cocoa Prices Rise''), PyStr (ustr ''Cocoa!''), PyStr (ustr ''COCOA board'')]),
         (ustr ''content'', [PyStr (ustr ''Cocoa prices rose 5% today''), PyStr (ustr '' ... ''), PyStr (ustr ''Error: timed out'')]),
         (ustr ''url'', [PyStr (ustr ''u1''), PyStr (ustr ''u2''), PyStr (ustr ''u3'')])]\<rparr>"

section \<open>Properties of the text normalizer\<close>

lemma ustr_space: "ustr '' '' = [32]" by (simp add: ustr_def)
lemma ustr_http: "ustr ''http'' = [104, 116, 116, 112]" by (simp add: ustr_def)
lemma ustr_www: "ustr ''www.'' = [119, 119, 119, 46]" by (simp add: ustr_def)

lemma re_sub_special_map:
  "re_sub special_match [32] s = map (\<lambda>c. if is_alpha c \<or> is_digit c \<or> is_space c then c else 32) s"
  by (induction s) (simp_all add: special_match_def)

lemma set_re_sub_gen:
  "\<forall>c cs. m (c # cs) = None \<longrightarrow> Q c \<Longrightarrow>
   set (re_sub m r s) \<subseteq> set r \<union> {c \<in> set s. Q c}"
proof (induction m r s rule: re_sub.induct)
  case (1 m r)
  then show ?case by simp
next
  case (2 m r c cs)
  show ?case
  proof (cases "m (c # cs)")
    case None
    with "2.IH"(1)[OF None "2.prems"] "2.prems" show ?thesis by auto
  next
    case (Some n)
    with "2.IH"(2)[OF Some "2.prems"] show ?thesis by (auto dest: in_set_dropD)
  qed
qed

lemma set_re_sub_spaces:
  "set (re_sub spaces_match [32] s) \<subseteq> insert 32 {c \<in> set s. \<not> is_space c}"
proof -
  have "\<forall>c cs. spaces_match (c # cs) = None \<longrightarrow> \<not> is_space c"
    by (auto simp: spaces_match_def split: if_splits)
  from set_re_sub_gen[of spaces_match "\<lambda>c. \<not> is_space c" "[32]" s, OF this]
  show ?thesis by auto
qed

lemma is_ascii_set: "is_ascii s \<longleftrightarrow> (\<forall>c \<in> set s. c < 128)"
  by (simp add: is_ascii_def list_all_iff)

lemma set_strip: "set (strip s) \<subseteq> set s"
  by (auto simp: strip_def dest!: set_dropWhileD)

lemma step5_chars:
  "c \<in> set (re_sub spaces_match [32] (re_sub special_match [32] s)) \<Longrightarrow> is_alpha c \<or> is_digit c \<or> c = 32"
  using set_re_sub_spaces[of "re_sub special_match [32] s"]
  by (auto simp: re_sub_special_map split: if_splits)

lemma alnum_ascii: "is_alpha c \<or> is_digit c \<or> c = 32 \<Longrightarrow> c < 128"
  by (auto simp: is_alpha_def is_upper_def is_lower_def is_digit_def)

lemma allowed_lower: "is_alpha c \<or> is_digit c \<or> c = 32 \<Longrightarrow> allowed (ascii_lower c)"
  by (auto simp: allowed_def ascii_lower_def is_alpha_def is_upper_def is_lower_def is_digit_def)

lemma clean_str_allowed: "c \<in> set (clean_str U s) \<Longrightarrow> allowed c"
proof -
  let ?s5 = "re_sub spaces_match [32] (re_sub special_match [32] (re_sub url_match [] (re_sub entity_match [32] (normalize_NFKD U s))))"
  assume c: "c \<in> set (clean_str U s)"
  have a: "is_ascii ?s5"
    unfolding is_ascii_set using step5_chars alnum_ascii by blast
  from c have "c \<in> set (strip (map ascii_lower ?s5))"
    by (simp add: clean_str_def Let_def ustr_space str_lower_def a)
  then have "c \<in> set (map ascii_lower ?s5)"
    using set_strip by blast
  then show ?thesis using step5_chars allowed_lower by auto
qed


lemma re_sub_no_match: "\<not> has_match m s \<Longrightarrow> re_sub m r s = s"
  by (induction s) auto

lemma no_match_by_chars:
  "\<forall>c cs. P c \<longrightarrow> m (c # cs) = None \<Longrightarrow> \<forall>c \<in> set s. P c \<Longrightarrow> \<not> has_match m s"
  by (induction s) auto

lemma length_re_sub_le: "length r \<le> 1 \<Longrightarrow> length (re_sub m r s) \<le> length s"
proof (induction m r s rule: re_sub.induct)
  case (1 m r)
  then show ?case by simp
next
  case (2 m r c cs)
  show ?case
  proof (cases "m (c # cs)")
    case None
    with "2.IH"(1)[OF None "2.prems"] show ?thesis by simp
  next
    case (Some n)
    with "2.IH"(2)[OF Some "2.prems"] "2.prems" show ?thesis by simp
  qed
qed

lemma length_re_sub_less: "has_match m s \<Longrightarrow> length (re_sub m [] s) < length s"
proof (induction s)
  case Nil
  then show ?case by simp
next
  case (Cons c cs)
  show ?case
  proof (cases "m (c # cs)")
    case None
    with Cons show ?thesis by simp
  next
    case (Some n)
    have "length (re_sub m [] (drop (n - 1) cs)) \<le> length (drop (n - 1) cs)"
      by (rule length_re_sub_le) simp
    with Some show ?thesis by simp
  qed
qed

lemma re_sub_spaces_Cons:
  "re_sub spaces_match [32] (c # cs) =
     (if is_space c then 32 # re_sub spaces_match [32] (dropWhile is_space cs)
      else c # re_sub spaces_match [32] cs)"
  by (simp add: spaces_match_def dropWhile_eq_drop)

lemma hd_re_sub_spaces:
  "s \<noteq> [] \<Longrightarrow> \<not> is_space (hd s) \<Longrightarrow>
   re_sub spaces_match [32] s \<noteq> [] \<and> \<not> is_space (hd (re_sub spaces_match [32] s))"
  by (cases s) (simp_all add: re_sub_spaces_Cons del: re_sub.simps(2))

lemma single_spaced_re_sub: "single_spaced (re_sub spaces_match [32] s)"
proof (induction "length s" arbitrary: s rule: less_induct)
  case less
  show ?case
  proof (cases s)
    case Nil
    then show ?thesis by simp
  next
    case (Cons c cs)
    show ?thesis
    proof (cases "is_space c")
      case False
      with Cons less[of cs] show ?thesis by (simp add: re_sub_spaces_Cons del: re_sub.simps(2))
    next
      case True
      let ?d = "dropWhile is_space cs"
      have "length ?d < length s" using Cons by (simp add: length_dropWhile_le le_imp_less_Suc)
      then have ss: "single_spaced (re_sub spaces_match [32] ?d)" by (rule less)
      have "re_sub spaces_match [32] ?d = [] \<or> \<not> is_space (hd (re_sub spaces_match [32] ?d))"
      proof (cases "?d = []")
        case True
        have "re_sub spaces_match [32] ?d = []" unfolding True by simp
        then show ?thesis by simp
      next
        case False
        then have "\<not> is_space (hd ?d)" by (rule hd_dropWhile)
        with False hd_re_sub_spaces show ?thesis by blast
      qed
      with True ss Cons show ?thesis by (simp add: re_sub_spaces_Cons del: re_sub.simps(2))
    qed
  qed
qed

lemma dropWhile_hd_id: "s = [] \<or> \<not> P (hd s) \<Longrightarrow> dropWhile P s = s"
  by (cases s) auto

lemma single_spaced_fix: "single_spaced s \<Longrightarrow> re_sub spaces_match [32] s = s"
  by (induction s) (auto simp: re_sub_spaces_Cons dropWhile_hd_id simp del: re_sub.simps(2) split: if_splits)

lemma is_space_ascii_lower: "is_space (ascii_lower c) = is_space c"
  by (auto simp: ascii_lower_def is_space_def is_upper_def)

lemma single_spaced_lower: "single_spaced s \<Longrightarrow> single_spaced (map ascii_lower s)"
proof (induction s)
  case Nil
  then show ?case by simp
next
  case (Cons c cs)
  have "ascii_lower 32 = 32" by (simp add: ascii_lower_def is_upper_def)
  with Cons show ?case
    by (cases cs) (auto simp: is_space_ascii_lower split: if_splits)
qed

lemma single_spaced_append: "single_spaced (a @ b) \<Longrightarrow> single_spaced a \<and> single_spaced b"
proof (induction a)
  case Nil
  then show ?case by simp
next
  case (Cons c a)
  then show ?case by (cases a) (auto split: if_splits)
qed

lemma strip_infix: "\<exists>a b. s = a @ strip s @ b"
proof -
  let ?t = "dropWhile is_space s"
  have "rev ?t = takeWhile is_space (rev ?t) @ dropWhile is_space (rev ?t)" by simp
  then have "?t = strip s @ rev (takeWhile is_space (rev ?t))"
    unfolding strip_def by (metis rev_append rev_rev_ident)
  moreover have "s = takeWhile is_space s @ ?t" by simp
  ultimately show ?thesis by metis
qed

lemma single_spaced_strip: "single_spaced s \<Longrightarrow> single_spaced (strip s)"
  using strip_infix[of s] single_spaced_append by metis

lemma strip_fix: "s = [] \<or> (\<not> is_space (hd s) \<and> \<not> is_space (last s)) \<Longrightarrow> strip s = s"
proof (cases "s = []")
  case True
  then show ?thesis by (simp add: strip_def)
next
  case False
  assume "s = [] \<or> (\<not> is_space (hd s) \<and> \<not> is_space (last s))"
  with False have h: "\<not> is_space (hd s)" and l: "\<not> is_space (last s)" by auto
  from False h have 1: "dropWhile is_space s = s" by (simp add: dropWhile_hd_id)
  from False l have "dropWhile is_space (rev s) = rev s"
    by (intro dropWhile_hd_id) (simp add: hd_rev)
  with 1 show ?thesis by (simp add: strip_def)
qed

lemma strip_ends: "strip s = [] \<or> (\<not> is_space (hd (strip s)) \<and> \<not> is_space (last (strip s)))"
proof (cases "dropWhile is_space s = []")
  case True
  have "strip s = []" unfolding strip_def True by simp
  then show ?thesis by simp
next
  case False
  let ?t = "dropWhile is_space s"
  from False have h: "\<not> is_space (hd ?t)" by (rule hd_dropWhile)
  from False have "hd (rev ?t) = last ?t" by (simp add: hd_rev)
  from False h have ne: "dropWhile is_space (rev ?t) \<noteq> []"
    by (metis dropWhile_eq_Nil_conv hd_in_set set_rev)
  then have l: "\<not> is_space (hd (dropWhile is_space (rev ?t)))" by (rule hd_dropWhile)
  have "rev ?t = takeWhile is_space (rev ?t) @ dropWhile is_space (rev ?t)" by simp
  then have "?t = strip s @ rev (takeWhile is_space (rev ?t))"
    unfolding strip_def by (metis rev_append rev_rev_ident)
  moreover from ne have sne: "strip s \<noteq> []" by (simp add: strip_def)
  ultimately have "hd ?t = hd (strip s)" by (metis hd_append2)
  with h have "\<not> is_space (hd (strip s))" by simp
  moreover from l ne have "\<not> is_space (last (strip s))" by (simp add: strip_def last_rev)
  ultimately show ?thesis by simp
qed

lemma strip_strip: "strip (strip s) = strip s"
  using strip_ends[of s] by (rule strip_fix)

lemma length_strip_le: "length (strip s) \<le> length s"
  using strip_infix[of s] by (metis length_append le_add1 le_add2 le_trans)

lemmas char_defs = is_space_def is_alpha_def is_upper_def is_lower_def is_digit_def
  non_space_def ascii_lower_def
lemmas match_defs = entity_match_def url_match_def special_match_def spaces_match_def
lemmas clean_defs = clean_text_def clean_str_def normalize_NFKD_def str_lower_def is_ascii_def
  strip_def ustr_def

lemma allowed_ascii: "\<forall>c \<in> set s. allowed c \<Longrightarrow> is_ascii s"
  by (auto simp: is_ascii_set allowed_def is_lower_def is_digit_def)

lemma allowed_lower_fix: "\<forall>c \<in> set s. allowed c \<Longrightarrow> map ascii_lower s = s"
  by (induction s) (auto simp: allowed_def ascii_lower_def is_upper_def is_lower_def is_digit_def)

lemma allowed_no_entity: "\<forall>c \<in> set s. allowed c \<Longrightarrow> \<not> has_match entity_match s"
proof (rule no_match_by_chars[where P = allowed])
  show "\<forall>c cs. allowed c \<longrightarrow> entity_match (c # cs) = None"
    by (auto simp: entity_match_def allowed_def is_lower_def is_digit_def Let_def)
qed

lemma allowed_no_special: "\<forall>c \<in> set s. allowed c \<Longrightarrow> \<not> has_match special_match s"
proof (rule no_match_by_chars[where P = allowed])
  show "\<forall>c cs. allowed c \<longrightarrow> special_match (c # cs) = None"
    by (auto simp: special_match_def allowed_def is_space_def is_alpha_def)
qed

lemma clean_str_normal:
  "(\<forall>c \<in> set (clean_str U s). allowed c) \<and> single_spaced (clean_str U s) \<and>
   strip (clean_str U s) = clean_str U s"
proof -
  let ?s5 = "re_sub spaces_match [32] (re_sub special_match [32] (re_sub url_match [] (re_sub entity_match [32] (normalize_NFKD U s))))"
  have a: "is_ascii ?s5"
    unfolding is_ascii_set using step5_chars alnum_ascii by blast
  then have eq: "clean_str U s = strip (map ascii_lower ?s5)"
    by (simp add: clean_str_def Let_def ustr_space str_lower_def)
  have "single_spaced ?s5" by (rule single_spaced_re_sub)
  then have "single_spaced (strip (map ascii_lower ?s5))"
    by (intro single_spaced_strip single_spaced_lower)
  with eq show ?thesis using clean_str_allowed[of _ U s] by (simp add: strip_strip)
qed

lemma clean_str_on_normal:
  assumes "\<forall>c \<in> set y. allowed c" "single_spaced y" "strip y = y"
  shows "clean_str U y = (if has_match url_match y
           then strip (str_lower U (re_sub spaces_match [32] (re_sub special_match [32] (re_sub url_match [] y))))
           else y)"
proof -
  have 1: "normalize_NFKD U y = y" using allowed_ascii[OF assms(1)] by (simp add: normalize_NFKD_def)
  have 2: "re_sub entity_match [32] y = y" using allowed_no_entity[OF assms(1)] by (rule re_sub_no_match)
  show ?thesis
  proof (cases "has_match url_match y")
    case True
    with 1 2 show ?thesis by (simp add: clean_str_def Let_def ustr_space)
  next
    case False
    then have 3: "re_sub url_match [] y = y" by (rule re_sub_no_match)
    have 4: "re_sub special_match [32] y = y" using allowed_no_special[OF assms(1)] by (rule re_sub_no_match)
    have 5: "re_sub spaces_match [32] y = y" using assms(2) by (rule single_spaced_fix)
    have 6: "str_lower U y = y"
      using allowed_ascii[OF assms(1)] allowed_lower_fix[OF assms(1)] by (simp add: str_lower_def)
    from False 1 2 3 4 5 6 assms(3) show ?thesis by (simp add: clean_str_def Let_def ustr_space)
  qed
qed

lemma length_special: "length (re_sub special_match [32] s) = length s"
  by (simp add: re_sub_special_map)

lemma str_lower_ascii_len: "is_ascii s \<Longrightarrow> length (str_lower U s) = length s"
  by (simp add: str_lower_def)

lemma clean_str_twice:
  "clean_str U (clean_str U s) = clean_str U s \<longleftrightarrow> \<not> has_match url_match (clean_str U s)"
proof -
  let ?y = "clean_str U s"
  note n = clean_str_normal[of U s]
  from n have eq: "clean_str U ?y = (if has_match url_match ?y
           then strip (str_lower U (re_sub spaces_match [32] (re_sub special_match [32] (re_sub url_match [] ?y))))
           else ?y)"
    by (intro clean_str_on_normal) auto
  show ?thesis
  proof (cases "has_match url_match ?y")
    case False
    with eq show ?thesis by simp
  next
    case True
    let ?s5 = "re_sub spaces_match [32] (re_sub special_match [32] (re_sub url_match [] ?y))"
    have a: "is_ascii ?s5"
      unfolding is_ascii_set using step5_chars alnum_ascii by blast
    have "length (strip (str_lower U ?s5)) \<le> length ?s5"
      using length_strip_le[of "str_lower U ?s5"] str_lower_ascii_len[OF a] by simp
    also have "\<dots> \<le> length (re_sub special_match [32] (re_sub url_match [] ?y))"
      by (rule length_re_sub_le) simp
    also have "\<dots> = length (re_sub url_match [] ?y)"
      by (rule length_special)
    also have "\<dots> < length ?y" using True by (rule length_re_sub_less)
    finally have "strip (str_lower U ?s5) \<noteq> ?y" by auto
    with eq True show ?thesis by simp
  qed
qed

subsection \<open>Claims about \<^verbatim>\<open>clean_text\<close>\<close>

text \<open>
  Claim C1, as amended. Cleaning a text twice gives the same as cleaning it once exactly
  when the cleaned text has no place where the URL pattern \<^verbatim>\<open>http\S+|www\.\S+\<close>
  matches; a cleaned text holds no dot, so that is: no \<^verbatim>\<open>http\<close> directly followed
  by a character other than a blank. The URL pattern is matched case-sensitively and
  before the text is lower-cased, so an upper-case \<^verbatim>\<open>HTTP...\<close> survives the first
  pass in lower case and is removed by the second.
\<close>

theorem clean_text_idempotent_iff:
  "clean_text U (PyStr (clean_text U x)) = clean_text U x \<longleftrightarrow>
   \<not> has_match url_match (clean_text U x)"
proof (cases x)
  case (PyStr s)
  then show ?thesis using clean_str_twice[of U s] by (simp add: clean_text_def)
qed (simp_all add: clean_defs match_defs)

text \<open>The amended claim at the title \<^verbatim>\<open>Cocoa &amp; Prices!\<close>, which cleans to \<^verbatim>\<open>cocoa prices\<close>.\<close>

theorem clean_text_idempotent_witness:
  "\<forall>U. \<not> has_match url_match (clean_text U (PyStr (ustr ''Cocoa &amp; Prices!''))) \<and>
       clean_text U (PyStr (ustr ''Cocoa &amp; Prices!'')) = ustr ''cocoa prices'' \<and>
       clean_text U (PyStr (clean_text U (PyStr (ustr ''Cocoa &amp; Prices!'')))) = ustr ''cocoa prices''"
proof
  fix U
  have e: "clean_text U (PyStr (ustr ''Cocoa &amp; Prices!'')) = ustr ''cocoa prices''"
    by (simp add: clean_defs match_defs char_defs)
  have h: "\<not> has_match url_match (ustr ''cocoa prices'')"
    by (simp add: ustr_def url_match_def char_defs)
  from clean_text_idempotent_iff[of U "PyStr (ustr ''Cocoa &amp; Prices!'')"] e h
  show "\<not> has_match url_match (clean_text U (PyStr (ustr ''Cocoa &amp; Prices!''))) \<and>
       clean_text U (PyStr (ustr ''Cocoa &amp; Prices!'')) = ustr ''cocoa prices'' \<and>
       clean_text U (PyStr (clean_text U (PyStr (ustr ''Cocoa &amp; Prices!'')))) = ustr ''cocoa prices''"
    by simp
qed

text \<open>
  Claim C1 as stated fails: \<^verbatim>\<open>clean_text("HTTPS")\<close> is \<^verbatim>\<open>"https"\<close>, and
  \<^verbatim>\<open>clean_text("https")\<close> is the empty string.
\<close>

theorem clean_text_not_idempotent:
  "\<forall>U. clean_text U (PyStr (ustr ''HTTPS'')) = ustr ''https'' \<and>
       clean_text U (PyStr (clean_text U (PyStr (ustr ''HTTPS'')))) = [] \<and>
       clean_text U (PyStr (clean_text U (PyStr (ustr ''HTTPS'')))) \<noteq> clean_text U (PyStr (ustr ''HTTPS''))"
proof
  fix U
  have e: "clean_text U (PyStr (ustr ''HTTPS'')) = ustr ''https''"
    by (simp add: clean_defs match_defs char_defs)
  have f: "clean_text U (PyStr (ustr ''https'')) = []"
    by (simp add: clean_defs match_defs char_defs)
  show "clean_text U (PyStr (ustr ''HTTPS'')) = ustr ''https'' \<and>
       clean_text U (PyStr (clean_text U (PyStr (ustr ''HTTPS'')))) = [] \<and>
       clean_text U (PyStr (clean_text U (PyStr (ustr ''HTTPS'')))) \<noteq> clean_text U (PyStr (ustr ''HTTPS''))"
    unfolding e f by (simp add: ustr_def)
qed

text \<open>
  Claim C3. Whatever the input (and whatever the Unicode database does to text outside
  ASCII), the result of \<^verbatim>\<open>clean_text\<close> holds only lower-case ASCII letters, ASCII
  digits and the blank.
\<close>

theorem clean_text_charset: "set (clean_text U x) \<subseteq> {c. is_lower c \<or> is_digit c \<or> c = 32}"
  using clean_str_allowed by (cases x) (auto simp: clean_text_def allowed_def)

text \<open>
  Claim C4. \<^verbatim>\<open>clean_text\<close> is a total function (every recursion above terminates),
  and for an input that is not a string it returns the empty string.
\<close>

theorem clean_text_non_string:
  "\<forall>s. t \<noteq> PyStr s \<Longrightarrow> clean_text U t = []"
  by (cases t) (simp_all add: clean_text_def)

text \<open>The claim at \<^verbatim>\<open>None\<close> and at the integer 123.\<close>

theorem clean_text_non_string_witness:
  "\<forall>U. (\<forall>s. PyNone \<noteq> PyStr s) \<and> clean_text U PyNone = [] \<and>
       (\<forall>s. PyInt 123 \<noteq> PyStr s) \<and> clean_text U (PyInt 123) = []"
  using clean_text_non_string[of PyNone] clean_text_non_string[of "PyInt 123"] by simp

section \<open>Properties of the date range enumerator\<close>

lemma days_in_month_bounds: "28 \<le> days_in_month y m \<and> days_in_month y m \<le> 31"
  by (simp add: days_in_month_def)

lemma mod100_mod4: "(n::nat) mod 100 = 0 \<Longrightarrow> n mod 4 = 0"
proof -
  assume "n mod 100 = 0"
  then have "100 dvd n" by (simp only: mod_eq_0_iff_dvd)
  moreover have "(4::nat) dvd 100" by simp
  ultimately have "4 dvd n" by (rule dvd_trans[rotated])
  then show ?thesis by (simp only: mod_eq_0_iff_dvd)
qed

lemma mod400_mod100: "(n::nat) mod 400 = 0 \<Longrightarrow> n mod 100 = 0"
proof -
  assume "n mod 400 = 0"
  then have "400 dvd n" by (simp only: mod_eq_0_iff_dvd)
  moreover have "(100::nat) dvd 400" by simp
  ultimately have "100 dvd n" by (rule dvd_trans[rotated])
  then show ?thesis by (simp only: mod_eq_0_iff_dvd)
qed

lemma days_before_year_nat:
  "days_before_year (Suc p) = int p * 365 + int (p div 4) - int (p div 100) + int (p div 400)"
  by (simp add: days_before_year_def Let_def zdiv_int)

lemma leap_step:
  fixes a b c a' b' c' :: nat and p :: nat
  assumes "a' = (if m4 then Suc a else a)" "b' = (if m100 then Suc b else b)"
    "c' = (if m400 then Suc c else c)" "m100 \<longrightarrow> m4" "m400 \<longrightarrow> m100"
  shows "int (Suc p) * 365 + int a' - int b' + int c' =
         int p * 365 + int a - int b + int c + (if m4 \<and> (\<not> m100 \<or> m400) then 366 else 365)"
  using assms by (cases m4; cases m100; cases m400) simp_all

lemma days_before_year_Suc:
  assumes "1 \<le> y"
  shows "days_before_year (Suc y) = days_before_year y + (if is_leap y then 366 else 365)"
proof -
  from assms obtain p where y: "y = Suc p" by (cases y) auto
  have d4: "Suc p div 4 = (if Suc p mod 4 = 0 then Suc (p div 4) else p div 4)" by (rule div_Suc)
  have d100: "Suc p div 100 = (if Suc p mod 100 = 0 then Suc (p div 100) else p div 100)" by (rule div_Suc)
  have d400: "Suc p div 400 = (if Suc p mod 400 = 0 then Suc (p div 400) else p div 400)" by (rule div_Suc)
  have i1: "Suc p mod 100 = 0 \<longrightarrow> Suc p mod 4 = 0" by (rule impI) (rule mod100_mod4)
  have i2: "Suc p mod 400 = 0 \<longrightarrow> Suc p mod 100 = 0" by (rule impI) (rule mod400_mod100)
  have l: "is_leap (Suc p) = (Suc p mod 4 = 0 \<and> (\<not> Suc p mod 100 = 0 \<or> Suc p mod 400 = 0))"
    by (simp only: is_leap_def)
  show ?thesis
    unfolding y days_before_year_nat l
    by (rule leap_step[OF d4 d100 d400 i1 i2])
qed


lemma days_before_month_Suc:
  assumes "1 \<le> m" "m < 12"
  shows "days_before_month y (Suc m) = days_before_month y m + int (days_in_month y m)"
proof -
  from assms have "m = 1 \<or> m = 2 \<or> m = 3 \<or> m = 4 \<or> m = 5 \<or> m = 6 \<or> m = 7 \<or> m = 8 \<or> m = 9 \<or> m = 10 \<or> m = 11"
    by arith
  then show ?thesis
    by (elim disjE) (simp_all add: days_before_month_def days_in_month_def)
qed

lemma days_before_month_1: "days_before_month y 1 = 0"
  by (simp add: days_before_month_def)

lemma days_before_month_12:
  "days_before_month y 12 + 31 = (if is_leap y then 366 else 365)"
  by (simp add: days_before_month_def)

lemma days_before_month_mono:
  assumes "m \<le> m'" "1 \<le> m" "m' \<le> 12"
  shows "days_before_month y m \<le> days_before_month y m'"
  using assms
proof (induction rule: dec_induct)
  case base
  then show ?case by simp
next
  case (step n)
  then have "days_before_month y (Suc n) = days_before_month y n + int (days_in_month y n)"
    by (intro days_before_month_Suc) auto
  with step show ?case by simp
qed

lemma days_before_year_mono:
  assumes "y \<le> y'" "1 \<le> y"
  shows "days_before_year y \<le> days_before_year y'"
  using assms
proof (induction rule: dec_induct)
  case base
  then show ?case by simp
next
  case (step n)
  then have "days_before_year (Suc n) = days_before_year n + (if is_leap n then 366 else 365)"
    by (intro days_before_year_Suc) auto
  with step show ?case by (simp split: if_splits)
qed

lemma toordinal_bounds:
  assumes "valid_date d"
  shows "days_before_year (year d) < toordinal d" and "toordinal d \<le> days_before_year (Suc (year d))"
proof -
  let ?y = "year d" and ?m = "month d"
  from assms have v: "1 \<le> ?y" "1 \<le> ?m" "?m \<le> 12" "1 \<le> day d" "day d \<le> days_in_month ?y ?m"
    by (simp_all add: valid_date_def)
  have "days_before_month ?y 1 \<le> days_before_month ?y ?m"
    using v by (intro days_before_month_mono) auto
  then have "0 \<le> days_before_month ?y ?m" using days_before_month_1[of ?y] by simp
  with v show "days_before_year ?y < toordinal d" by (simp add: toordinal_def)
  have "days_before_month ?y ?m + int (days_in_month ?y ?m) \<le> days_before_month ?y 12 + 31"
  proof (cases "?m = 12")
    case True
    then show ?thesis by (simp add: days_in_month_def)
  next
    case False
    with v have lt: "?m < 12" by simp
    with v have "days_before_month ?y (Suc ?m) = days_before_month ?y ?m + int (days_in_month ?y ?m)"
      by (intro days_before_month_Suc) auto
    moreover have "days_before_month ?y (Suc ?m) \<le> days_before_month ?y 12"
      using lt by (intro days_before_month_mono) auto
    ultimately show ?thesis by simp
  qed
  then have "days_before_month ?y ?m + int (day d) \<le> (if is_leap ?y then 366 else 365)"
    using v(5) days_before_month_12[of ?y] by (simp split: if_splits)
  then show "toordinal d \<le> days_before_year (Suc ?y)"
    using days_before_year_Suc[OF v(1)] by (simp add: toordinal_def split: if_splits)
qed


lemma date_eqI: "year a = year b \<Longrightarrow> month a = month b \<Longrightarrow> day a = day b \<Longrightarrow> (a::date) = b"
  by simp

lemma toordinal_less_year:
  assumes "valid_date a" "valid_date b" "year a < year b"
  shows "toordinal a < toordinal b"
proof -
  from assms(1) have "1 \<le> Suc (year a)" by simp
  moreover from assms(3) have "Suc (year a) \<le> year b" by simp
  ultimately have "days_before_year (Suc (year a)) \<le> days_before_year (year b)"
    by (intro days_before_year_mono)
  with toordinal_bounds(2)[OF assms(1)] toordinal_bounds(1)[OF assms(2)] show ?thesis by simp
qed

lemma toordinal_less_month:
  assumes "valid_date a" "valid_date b" "year a = year b" "month a < month b"
  shows "toordinal a < toordinal b"
proof -
  let ?y = "year a"
  from assms have v: "1 \<le> month a" "month a < 12" "day a \<le> days_in_month ?y (month a)"
    "month b \<le> 12" "1 \<le> day b"
    by (simp_all add: valid_date_def)
  have "days_before_month ?y (Suc (month a)) = days_before_month ?y (month a) + int (days_in_month ?y (month a))"
    using v by (intro days_before_month_Suc) auto
  moreover have "days_before_month ?y (Suc (month a)) \<le> days_before_month ?y (month b)"
    using v assms(4) by (intro days_before_month_mono) auto
  ultimately show ?thesis using v assms(3) by (simp add: toordinal_def)
qed

lemma date_le_iff:
  assumes "valid_date a" "valid_date b"
  shows "date_le a b \<longleftrightarrow> toordinal a \<le> toordinal b"
proof
  assume "date_le a b"
  then consider "year a < year b" | "year a = year b" "month a < month b"
    | "year a = year b" "month a = month b" "day a \<le> day b"
    by (auto simp: date_le_def)
  then show "toordinal a \<le> toordinal b"
  proof cases
    case 1
    then show ?thesis using toordinal_less_year[OF assms] by simp
  next
    case 2
    then show ?thesis using toordinal_less_month[OF assms] by simp
  next
    case 3
    then show ?thesis by (simp add: toordinal_def)
  qed
next
  assume le: "toordinal a \<le> toordinal b"
  show "date_le a b"
  proof (rule ccontr)
    assume "\<not> date_le a b"
    then have "year b < year a \<or> (year b = year a \<and> month b < month a) \<or>
        (year b = year a \<and> month b = month a \<and> day b < day a)"
      unfolding date_le_def by arith
    then consider "year b < year a" | "year b = year a" "month b < month a"
      | "year b = year a" "month b = month a" "day b < day a"
      by blast
    then have "toordinal b < toordinal a"
    proof cases
      case 1
      then show ?thesis using toordinal_less_year[OF assms(2) assms(1)] by simp
    next
      case 2
      then show ?thesis using toordinal_less_month[OF assms(2) assms(1)] by simp
    next
      case 3
      then show ?thesis by (simp add: toordinal_def)
    qed
    with le show False by simp
  qed
qed

lemma toordinal_inj:
  assumes "valid_date a" "valid_date b" "toordinal a = toordinal b"
  shows "a = b"
proof -
  from assms have "date_le a b" "date_le b a" by (simp_all add: date_le_iff)
  then have "year a = year b \<and> month a = month b \<and> day a = day b"
    by (auto simp: date_le_def)
  then show ?thesis by simp
qed

lemma add_day_Inr:
  assumes "valid_date c" "add_day c = Inr n"
  shows "valid_date n \<and> toordinal n = toordinal c + 1"
proof -
  let ?y = "year c" and ?m = "month c"
  from assms(1) have v: "1 \<le> ?y" "?y \<le> 9999" "1 \<le> ?m" "?m \<le> 12" "1 \<le> day c"
    "day c \<le> days_in_month ?y ?m"
    by (simp_all add: valid_date_def)
  have lb: "\<And>y m. 1 \<le> days_in_month y m" using days_in_month_bounds by (meson le_trans numeral_le_one_iff not_numeral_le_zero one_le_numeral)
  consider (d) "day c < days_in_month ?y ?m"
    | (m) "day c = days_in_month ?y ?m" "?m < 12"
    | (y) "day c = days_in_month ?y ?m" "?m = 12" "?y < 9999"
    | (e) "day c = days_in_month ?y ?m" "?m = 12" "?y = 9999"
    using v by force
  then show ?thesis
  proof cases
    case d
    with assms(2) have n: "n = c\<lparr>day := day c + 1\<rparr>" by (simp add: add_day_def)
    with d v show ?thesis by (simp add: valid_date_def toordinal_def)
  next
    case m
    with assms(2) have n: "n = c\<lparr>month := ?m + 1, day := 1\<rparr>" by (simp add: add_day_def)
    have "days_before_month ?y (Suc ?m) = days_before_month ?y ?m + int (days_in_month ?y ?m)"
      using v m by (intro days_before_month_Suc) auto
    with n m v lb[of ?y "Suc ?m"] show ?thesis by (simp add: valid_date_def toordinal_def)
  next
    case y
    with assms(2) have n: "n = c\<lparr>year := ?y + 1, month := 1, day := 1\<rparr>" by (simp add: add_day_def)
    from y have "day c = 31" by (simp add: days_in_month_def)
    with y days_before_month_12[of ?y] days_before_year_Suc[OF v(1)]
    have "toordinal c + 1 = days_before_year (Suc ?y) + 1"
      by (simp add: toordinal_def split: if_splits)
    with n y v lb[of "Suc ?y" 1] days_before_month_1[of "Suc ?y"] show ?thesis
      by (simp add: valid_date_def toordinal_def)
  next
    case e
    with assms(2) show ?thesis by (simp add: add_day_def)
  qed
qed

lemma add_day_Inl:
  assumes "valid_date c"
  shows "add_day c = Inl OverflowError \<longleftrightarrow> c = max_date"
proof
  assume "c = max_date"
  then show "add_day c = Inl OverflowError"
    by (simp add: add_day_def max_date_def days_in_month_def)
next
  assume a: "add_day c = Inl OverflowError"
  from assms have v: "year c \<le> 9999" "month c \<le> 12" "day c \<le> days_in_month (year c) (month c)"
    by (simp_all add: valid_date_def)
  from a have "\<not> day c < days_in_month (year c) (month c)" "\<not> month c < 12" "\<not> year c < 9999"
    by (auto simp: add_day_def split: if_splits)
  with v have "year c = 9999" "month c = 12" "day c = days_in_month (year c) (month c)" by auto
  then have "year c = year max_date \<and> month c = month max_date \<and> day c = day max_date"
    by (simp add: max_date_def days_in_month_def)
  then show "c = max_date" by simp
qed

lemma add_day_error: "add_day c = Inl x \<Longrightarrow> add_day c = Inl OverflowError"
  by (simp add: add_day_def split: if_splits)

lemma max_date_last:
  assumes "valid_date e" "date_le max_date e"
  shows "e = max_date"
proof -
  from assms(1) have v: "year e \<le> 9999" "month e \<le> 12" "day e \<le> days_in_month (year e) (month e)"
    by (simp_all add: valid_date_def)
  from assms(2) v(1,2) have ym: "year e = 9999" "month e = 12" and d: "31 \<le> day e"
    unfolding date_le_def max_date_def by auto
  from ym v(3) have "day e \<le> 31" by (simp add: days_in_month_def)
  with d ym have "year e = year max_date \<and> month e = month max_date \<and> day e = day max_date"
    by (simp add: max_date_def)
  then show ?thesis by simp
qed

lemma gen_loop_run:
  assumes "valid_date e" "e \<noteq> max_date"
  shows "valid_date c \<Longrightarrow> toordinal c \<le> toordinal e + 1 \<Longrightarrow>
    \<exists>ds. gen_loop c e acc = Inr (acc @ map entry ds) \<and>
         map toordinal ds = [toordinal c .. toordinal e] \<and> (\<forall>d \<in> set ds. valid_date d)"
proof (induction "nat (toordinal e + 1 - toordinal c)" arbitrary: c acc)
  case 0
  then have le: "\<not> toordinal c \<le> toordinal e" by simp
  with 0 assms have "\<not> date_le c e" by (simp add: date_le_iff)
  then have "gen_loop c e acc = Inr acc" by (subst gen_loop.simps) simp
  with le show ?case by (intro exI[of _ "[]"]) simp
next
  case (Suc k)
  then have le: "toordinal c \<le> toordinal e" by simp
  with Suc.prems assms have dl: "date_le c e" by (simp add: date_le_iff)
  have "c \<noteq> max_date" using dl assms max_date_last by blast
  with Suc.prems have "add_day c \<noteq> Inl OverflowError" by (simp add: add_day_Inl)
  then obtain n where n: "add_day c = Inr n"
    using add_day_error by (cases "add_day c") blast+
  from add_day_Inr[OF Suc.prems(1) n] have vn: "valid_date n" and on: "toordinal n = toordinal c + 1"
    by simp_all
  from Suc.hyps(2) on have "k = nat (toordinal e + 1 - toordinal n)" by simp
  from Suc.hyps(1)[OF this vn, of "acc @ [entry c]"] on le
  obtain ds where ds: "gen_loop n e (acc @ [entry c]) = Inr ((acc @ [entry c]) @ map entry ds)"
    "map toordinal ds = [toordinal c + 1 .. toordinal e]" "\<forall>d \<in> set ds. valid_date d"
    by auto
  have "gen_loop c e acc = gen_loop n e (acc @ [entry c])"
    using dl n by (subst gen_loop.simps) (simp add: entry_def Let_def)
  with ds(1) have 1: "gen_loop c e acc = Inr (acc @ map entry (c # ds))" by simp
  have 2: "map toordinal (c # ds) = [toordinal c .. toordinal e]"
    using ds(2) le by (simp add: upto_rec1)
  from 1 2 ds(3) Suc.prems(1) show ?case by (intro exI[of _ "c # ds"]) simp
qed

lemma digit_mod100: "digit (n mod 100) = digit n"
proof -
  have "n mod 100 mod 10 = n mod 10" by (rule mod_mod_cancel) simp
  then show ?thesis by (simp only: digit_def)
qed

lemma digit_div10_mod100: "digit (n mod 100 div 10) = digit (n div 10)"
proof -
  have "n mod (10 * 10) = 10 * (n div 10 mod 10) + n mod 10" by (rule mod_mult2_eq)
  then have "n mod 100 div 10 = (10 * (n div 10 mod 10) + n mod 10) div 10" by simp
  also have "\<dots> = n div 10 mod 10" by simp
  finally have "n mod 100 div 10 = n div 10 mod 10" .
  then show ?thesis by (simp only: digit_def mod_mod_trivial)
qed

lemma digit_div1000: "digit (n div 100 div 10) = digit (n div 1000)"
proof -
  have "n div 100 div 10 = n div (100 * 10)" by (rule div_mult2_eq[symmetric])
  then show ?thesis by simp
qed


lemma lex_append_same_length:
  fixes a b u v :: "nat list"
  shows "length a = length b \<Longrightarrow> a @ u < b @ v \<longleftrightarrow> a < b \<or> (a = b \<and> u < v)"
  by (induction a b rule: list_induct2) auto

lemma length_two_digits: "length (two_digits n) = 2"
  by (simp add: two_digits_def)



lemma decimal_small: "n < 10 \<Longrightarrow> decimal n = [digit n]"
  by (subst decimal.simps) simp

lemma decimal_step: "10 \<le> n \<Longrightarrow> decimal n = decimal (n div 10) @ [digit n]"
  by (subst decimal.simps) simp

lemma decimal_four:
  assumes "1000 \<le> y" "y \<le> 9999"
  shows "decimal y = [digit (y div 1000), digit (y div 100), digit (y div 10), digit y]"
proof -
  have a: "10 \<le> y" using assms by simp
  have b: "10 \<le> y div 10" using assms by simp
  have c: "10 \<le> y div 10 div 10" using assms by simp
  have d: "y div 10 div 10 div 10 < 10" using assms by simp
  have e: "y div 10 div 10 = y div 100" "y div 100 div 10 = y div 1000"
    by (simp_all add: div_mult2_eq[symmetric])
  show ?thesis
    using decimal_step[OF a] decimal_step[OF b] decimal_step[OF c] decimal_small[OF d]
    by (simp add: e)
qed

lemma decimal_digits: "decimal n \<noteq> [] \<and> list_all is_digit (decimal n)"
proof (induction n rule: decimal.induct)
  case (1 n)
  show ?case
  proof (cases "n < 10")
    case True
    then show ?thesis by (simp add: decimal_small digit_def is_digit_def)
  next
    case False
    with 1 show ?thesis by (simp add: decimal_step digit_def is_digit_def)
  qed
qed

lemma strftime_blocks:
  assumes "1000 \<le> year d" "year d \<le> 9999"
  shows "strftime_Ymd d = two_digits (year d div 100) @ two_digits (year d mod 100) @
     two_digits (month d) @ two_digits (day d)"
  unfolding strftime_Ymd_def decimal_four[OF assms] two_digits_def
    digit_mod100 digit_div10_mod100 digit_div1000
  by simp



lemma base10_order:
  fixes x r x' r' :: nat
  assumes "r < 10" "r' < 10"
  shows "(x < x' \<or> (x = x' \<and> r < r')) \<longleftrightarrow> 10 * x + r < 10 * x' + r'"
proof (cases x x' rule: linorder_cases)
  case less
  then have "10 * x + 10 \<le> 10 * x'" by simp
  with assms less show ?thesis by simp
next
  case equal
  then show ?thesis by simp
next
  case greater
  then have "10 * x' + 10 \<le> 10 * x" by simp
  with assms greater show ?thesis by simp
qed

lemma base10_eq:
  fixes x r x' r' :: nat
  assumes "r < 10" "r' < 10"
  shows "(x = x' \<and> r = r') \<longleftrightarrow> 10 * x + r = 10 * x' + r'"
proof (cases x x' rule: linorder_cases)
  case less
  then have "10 * x + 10 \<le> 10 * x'" by simp
  with assms less show ?thesis by simp
next
  case equal
  then show ?thesis by simp
next
  case greater
  then have "10 * x' + 10 \<le> 10 * x" by simp
  with assms greater show ?thesis by simp
qed

lemma digit_less: "digit a < digit b \<longleftrightarrow> a mod 10 < b mod 10"
  by (simp add: digit_def)

lemma digit_eq: "digit a = digit b \<longleftrightarrow> a mod 10 = b mod 10"
  by (simp add: digit_def)

lemma two_digits_less:
  assumes "a < 100" "b < 100"
  shows "two_digits a < two_digits b \<longleftrightarrow> a < b"
proof -
  have da: "a div 10 mod 10 = a div 10" using assms(1) by simp
  have db: "b div 10 mod 10 = b div 10" using assms(2) by simp
  have "two_digits a < two_digits b \<longleftrightarrow>
      a div 10 < b div 10 \<or> (a div 10 = b div 10 \<and> a mod 10 < b mod 10)"
    unfolding two_digits_def by (simp add: digit_less digit_eq da db)
  also have "\<dots> \<longleftrightarrow> 10 * (a div 10) + a mod 10 < 10 * (b div 10) + b mod 10"
    by (rule base10_order) simp_all
  also have "\<dots> \<longleftrightarrow> a < b" by simp
  finally show ?thesis .
qed

lemma two_digits_eq:
  assumes "a < 100" "b < 100"
  shows "two_digits a = two_digits b \<longleftrightarrow> a = b"
proof -
  have da: "a div 10 mod 10 = a div 10" using assms(1) by simp
  have db: "b div 10 mod 10 = b div 10" using assms(2) by simp
  have "two_digits a = two_digits b \<longleftrightarrow> (a div 10 = b div 10 \<and> a mod 10 = b mod 10)"
    unfolding two_digits_def by (simp add: digit_eq da db)
  also have "\<dots> \<longleftrightarrow> 10 * (a div 10) + a mod 10 = 10 * (b div 10) + b mod 10"
    by (rule base10_eq) simp_all
  also have "\<dots> \<longleftrightarrow> a = b" by simp
  finally show ?thesis .
qed

lemma base_order:
  fixes x r x' r' k :: nat
  assumes "r < k" "r' < k"
  shows "(x < x' \<or> (x = x' \<and> r < r')) \<longleftrightarrow> k * x + r < k * x' + r'"
proof (cases x x' rule: linorder_cases)
  case less
  then have "Suc x \<le> x'" by simp
  then have "k * Suc x \<le> k * x'" by (rule mult_le_mono2)
  then have "k * x + k \<le> k * x'" by simp
  with assms less show ?thesis by simp
next
  case equal
  then show ?thesis by simp
next
  case greater
  then have "Suc x' \<le> x" by simp
  then have "k * Suc x' \<le> k * x" by (rule mult_le_mono2)
  then have "k * x' + k \<le> k * x" by simp
  with assms greater show ?thesis by simp
qed

lemma year_split_order:
  "(a div 100 < b div 100 \<or> (a div 100 = b div 100 \<and> a mod 100 < b mod 100)) \<longleftrightarrow> (a::nat) < b"
proof -
  have "(a div 100 < b div 100 \<or> (a div 100 = b div 100 \<and> a mod 100 < b mod 100)) \<longleftrightarrow>
      100 * (a div 100) + a mod 100 < 100 * (b div 100) + b mod 100"
    by (rule base_order) simp_all
  then show ?thesis by simp
qed

lemma strftime_less:
  assumes "valid_date a" "valid_date b" "toordinal a < toordinal b"
    and "1000 \<le> year a" "1000 \<le> year b"
  shows "strftime_Ymd a < strftime_Ymd b"
proof -
  from assms(1,4) have ba: "strftime_Ymd a = two_digits (year a div 100) @
      two_digits (year a mod 100) @ two_digits (month a) @ two_digits (day a)"
    by (intro strftime_blocks) (simp_all add: valid_date_def)
  from assms(2,5) have bb: "strftime_Ymd b = two_digits (year b div 100) @
      two_digits (year b mod 100) @ two_digits (month b) @ two_digits (day b)"
    by (intro strftime_blocks) (simp_all add: valid_date_def)
  from assms(1-3) have "\<not> date_le b a" by (simp add: date_le_iff)
  then have lt: "year a < year b \<or> (year a = year b \<and> month a < month b) \<or>
      (year a = year b \<and> month a = month b \<and> day a < day b)"
    unfolding date_le_def by arith
  from assms(1) have "day a \<le> days_in_month (year a) (month a)" by (simp add: valid_date_def)
  with days_in_month_bounds[of "year a" "month a"] have da: "day a < 100" by simp
  from assms(2) have "day b \<le> days_in_month (year b) (month b)" by (simp add: valid_date_def)
  with days_in_month_bounds[of "year b" "month b"] have db: "day b < 100" by simp
  from assms(1,2) have m: "month a < 100" "month b < 100" by (simp_all add: valid_date_def)
  from assms(1,2) have "year a < 10000" "year b < 10000" by (simp_all add: valid_date_def)
  then have c: "year a div 100 < 100" "year b div 100 < 100" by simp_all
  have y: "year a mod 100 < 100" "year b mod 100 < 100" by simp_all
  have ye: "year a div 100 = year b div 100 \<and> year a mod 100 = year b mod 100 \<longleftrightarrow> year a = year b"
    by (metis div_mult_mod_eq)
  have "strftime_Ymd a < strftime_Ymd b \<longleftrightarrow>
      (year a div 100 < year b div 100 \<or> (year a div 100 = year b div 100 \<and>
        (year a mod 100 < year b mod 100 \<or> (year a mod 100 = year b mod 100 \<and>
          (month a < month b \<or> (month a = month b \<and> day a < day b))))))"
    unfolding ba bb
    by (simp add: lex_append_same_length length_two_digits two_digits_less two_digits_eq c y m da db)
  also have "\<dots> \<longleftrightarrow> year a < year b \<or> (year a = year b \<and> (month a < month b \<or> (month a = month b \<and> day a < day b)))"
    using year_split_order[of "year a" "year b"] ye by blast
  finally show ?thesis using lt by blast
qed

lemma is_digit_digit: "is_digit (digit n)"
  by (simp add: is_digit_def digit_def)

lemma strftime_all_digits: "strftime_Ymd d \<noteq> [] \<and> list_all is_digit (strftime_Ymd d)"
  using decimal_digits[of "year d"] by (simp add: strftime_Ymd_def two_digits_def is_digit_digit)

lemma strftime_length: "1000 \<le> year d \<Longrightarrow> year d \<le> 9999 \<Longrightarrow> length (strftime_Ymd d) = 8"
  by (simp add: strftime_blocks two_digits_def)

lemma occurrences_short: "length t < length p \<Longrightarrow> occurrences p t = 0"
  by (induction t) auto

lemma occurrences_self: "p \<noteq> [] \<Longrightarrow> occurrences p p = 1"
  by (cases p) (simp_all add: occurrences_short)

lemma occurrences_skip:
  assumes "p \<noteq> []" "is_digit (hd p)"
  shows "\<forall>c \<in> set pre. \<not> is_digit c \<Longrightarrow> occurrences p (pre @ t) = occurrences p t"
proof (induction pre)
  case Nil
  then show ?case by simp
next
  case (Cons c pre)
  have "take (length p) (c # pre @ t) \<noteq> p"
  proof
    assume "take (length p) (c # pre @ t) = p"
    with assms(1) have "hd p = c" by (cases p) auto
    with assms(2) Cons.prems show False by simp
  qed
  with Cons show ?case by simp
qed

lemma url_prefix_no_digit:
  "\<forall>c \<in> set (ustr ''https://www.ghanaweb.com/GhanaHomePage/business/browse.archive.php?date=''). \<not> is_digit c"
  by (simp add: ustr_def is_digit_def)

lemma key_once: "occurrences (strftime_Ymd d) (listing_url (strftime_Ymd d)) = 1"
proof -
  have ne: "strftime_Ymd d \<noteq> []" using strftime_all_digits by blast
  have "list_all is_digit (strftime_Ymd d)" using strftime_all_digits by blast
  with ne have hd: "is_digit (hd (strftime_Ymd d))" by (cases "strftime_Ymd d") simp_all
  have "occurrences (strftime_Ymd d) (listing_url (strftime_Ymd d)) =
      occurrences (strftime_Ymd d) (strftime_Ymd d)"
    unfolding listing_url_def using url_prefix_no_digit by (rule occurrences_skip[OF ne hd])
  with ne show ?thesis by (simp add: occurrences_self)
qed

lemma sorted_keys:
  assumes "map toordinal ds = [i .. j]" "\<forall>d \<in> set ds. valid_date d"
    and "\<forall>d \<in> set ds. 1000 \<le> year d"
  shows "sorted_wrt (<) (map strftime_Ymd ds)"
proof -
  have "sorted_wrt (<) (map toordinal ds)" unfolding assms(1) by (simp add: strict_sorted_iff)
  then have "sorted_wrt (\<lambda>a b. toordinal a < toordinal b) ds" by (simp add: sorted_wrt_map)
  then have "sorted_wrt (\<lambda>a b. strftime_Ymd a < strftime_Ymd b) ds"
    by (rule sorted_wrt_mono_rel[rotated]) (use assms(2,3) strftime_less in blast)
  then show ?thesis by (simp add: sorted_wrt_map)
qed

subsection \<open>What \<^verbatim>\<open>generate_date_urls\<close> returns\<close>

text \<open>
  For calendar dates \<open>start_date \<le> end_date\<close> from the year 1000 on, where
  \<open>end_date\<close> is not the last representable day (9999-12-31),
  \<^verbatim>\<open>generate_date_urls\<close> returns one pair per day: the pairs of the days \<open>ds\<close>
  whose ordinals run from that of \<open>start_date\<close> to that of \<open>end_date\<close> without a gap,
  so there are \<^verbatim>\<open>(end - start).days + 1\<close> of them, both endpoints included; the
  date keys are strictly ascending (as strings); every key has eight digits, and the
  URL of a day holds the key of that day at exactly one place.
\<close>

lemma generate_date_urls_enumerates:
  assumes "valid_date start_date" "valid_date end_date" "date_le start_date end_date"
    "end_date \<noteq> max_date" "1000 \<le> year start_date"
  shows "\<exists>ds. generate_date_urls start_date end_date = Inr (map entry ds) \<and>
     int (length ds) = days_between start_date end_date + 1 \<and>
     map toordinal ds = [toordinal start_date .. toordinal end_date] \<and>
     (\<forall>d \<in> set ds. valid_date d) \<and>
     sorted_wrt (<) (map strftime_Ymd ds) \<and>
     (\<forall>d \<in> set ds. length (strftime_Ymd d) = 8 \<and> list_all is_digit (strftime_Ymd d) \<and>
        occurrences (strftime_Ymd d) (listing_url (strftime_Ymd d)) = 1)"
proof -
  from assms(1-3) have le: "toordinal start_date \<le> toordinal end_date" by (simp add: date_le_iff)
  then have "toordinal start_date \<le> toordinal end_date + 1" by simp
  from gen_loop_run[OF assms(2) assms(4) assms(1) this, of "[]"]
  obtain ds where ds: "gen_loop start_date end_date [] = Inr (map entry ds)"
    "map toordinal ds = [toordinal start_date .. toordinal end_date]" "\<forall>d \<in> set ds. valid_date d"
    by auto
  have "length (map toordinal ds) = nat (toordinal end_date - toordinal start_date + 1)"
    unfolding ds(2) by simp
  with le have len: "int (length ds) = days_between start_date end_date + 1"
    by (simp add: days_between_def)
  have yr: "\<forall>d \<in> set ds. 1000 \<le> year d \<and> year d \<le> 9999"
  proof
    fix d assume d: "d \<in> set ds"
    then have "toordinal d \<in> set (map toordinal ds)" by simp
    then have "toordinal start_date \<le> toordinal d" unfolding ds(2) by simp
    with d ds(3) assms(1) have "date_le start_date d" by (simp add: date_le_iff)
    then have "year start_date \<le> year d" by (auto simp: date_le_def)
    with assms(5) d ds(3) show "1000 \<le> year d \<and> year d \<le> 9999" by (simp add: valid_date_def)
  qed
  then have "\<forall>d \<in> set ds. 1000 \<le> year d" by simp
  with ds(2,3) have srt: "sorted_wrt (<) (map strftime_Ymd ds)" by (rule sorted_keys)
  from ds len srt yr show ?thesis
    unfolding generate_date_urls_def
    by (intro exI[of _ ds]) (simp add: strftime_all_digits strftime_length key_once)
qed

text \<open>The same for 2024-02-28 to 2024-03-01, with the list the function returns.\<close>

lemma generate_date_urls_example:
  "valid_date \<lparr>year = 2024, month = 2, day = 28\<rparr> \<and> valid_date \<lparr>year = 2024, month = 3, day = 1\<rparr> \<and> date_le \<lparr>year = 2024, month = 2, day = 28\<rparr> \<lparr>year = 2024, month = 3, day = 1\<rparr> \<and> \<lparr>year = 2024, month = 3, day = 1\<rparr> \<noteq> max_date \<and>
   days_between \<lparr>year = 2024, month = 2, day = 28\<rparr> \<lparr>year = 2024, month = 3, day = 1\<rparr> + 1 = 3 \<and>
   generate_date_urls \<lparr>year = 2024, month = 2, day = 28\<rparr> \<lparr>year = 2024, month = 3, day = 1\<rparr> =
     Inr [(ustr ''20240228'', ustr ''https://www.ghanaweb.com/GhanaHomePage/business/browse.archive.php?date=20240228''),
          (ustr ''20240229'', ustr ''https://www.ghanaweb.com/GhanaHomePage/business/browse.archive.php?date=20240229''),
          (ustr ''20240301'', ustr ''https://www.ghanaweb.com/GhanaHomePage/business/browse.archive.php?date=20240301'')] \<and>
   (\<exists>ds. generate_date_urls \<lparr>year = 2024, month = 2, day = 28\<rparr> \<lparr>year = 2024, month = 3, day = 1\<rparr> = Inr (map entry ds) \<and>
     int (length ds) = days_between \<lparr>year = 2024, month = 2, day = 28\<rparr> \<lparr>year = 2024, month = 3, day = 1\<rparr> + 1 \<and>
     map toordinal ds = [toordinal \<lparr>year = 2024, month = 2, day = 28\<rparr> .. toordinal \<lparr>year = 2024, month = 3, day = 1\<rparr>] \<and>
     (\<forall>d \<in> set ds. valid_date d) \<and>
     sorted_wrt (<) (map strftime_Ymd ds) \<and>
     (\<forall>d \<in> set ds. length (strftime_Ymd d) = 8 \<and> list_all is_digit (strftime_Ymd d) \<and>
        occurrences (strftime_Ymd d) (listing_url (strftime_Ymd d)) = 1))"
proof -
  let ?S = "\<lparr>year = 2024, month = 2, day = 28\<rparr>" and ?E = "\<lparr>year = 2024, month = 3, day = 1\<rparr>"
  have v1: "valid_date ?S" by (simp add: valid_date_def days_in_month_def is_leap_def)
  have v2: "valid_date ?E" by (simp add: valid_date_def days_in_month_def is_leap_def)
  have le: "date_le ?S ?E" by (simp add: date_le_def)
  have ne: "?E \<noteq> max_date" by (simp add: max_date_def)
  have yr: "1000 \<le> year ?S" by simp
  have db: "days_between ?S ?E + 1 = 3"
    by (simp add: days_between_def toordinal_def days_before_year_def days_before_month_def
        is_leap_def Let_def)
  have ev: "generate_date_urls ?S ?E =
     Inr [(ustr ''20240228'', ustr ''https://www.ghanaweb.com/GhanaHomePage/business/browse.archive.php?date=20240228''),
          (ustr ''20240229'', ustr ''https://www.ghanaweb.com/GhanaHomePage/business/browse.archive.php?date=20240229''),
          (ustr ''20240301'', ustr ''https://www.ghanaweb.com/GhanaHomePage/business/browse.archive.php?date=20240301'')]"
    by (simp add: generate_date_urls_def gen_loop.simps date_le_def add_day_def days_in_month_def
        is_leap_def Let_def strftime_Ymd_def decimal.simps two_digits_def digit_def listing_url_def
        ustr_def)
  from generate_date_urls_enumerates[OF v1 v2 le ne yr] v1 v2 le ne db ev show ?thesis by blast
qed

subsection \<open>Claims about \<^verbatim>\<open>generate_date_urls\<close>\<close>

text \<open>
  Claim C2 (for every \<open>start \<le> end\<close> the function returns one pair per day, both
  endpoints included, with ascending eight-digit keys) is what the function is
  documented to do ("Generate URLs for each day between start_date and end_date"),
  and the function fails it at two kinds of input. When \<open>end_date\<close> is 9999-12-31,
  the loop appends the pair of that day and then adds a day to it, which raises
  \<^verbatim>\<open>OverflowError\<close>: no list is returned. For a year below 1000 the key is
  shorter than eight digits: from 0999-12-31 to 1000-01-01 the keys are
  \<^verbatim>\<open>9991231\<close> and \<^verbatim>\<open>10000101\<close>, seven digits and then eight, and not ascending
  as strings.
\<close>

theorem generate_date_urls_failing_inputs:
  "valid_date max_date \<and> date_le max_date max_date \<and>
   generate_date_urls max_date max_date = Inl OverflowError \<and>
   valid_date \<lparr>year = 999, month = 12, day = 31\<rparr> \<and>
   valid_date \<lparr>year = 1000, month = 1, day = 1\<rparr> \<and>
   date_le \<lparr>year = 999, month = 12, day = 31\<rparr> \<lparr>year = 1000, month = 1, day = 1\<rparr> \<and>
   generate_date_urls \<lparr>year = 999, month = 12, day = 31\<rparr> \<lparr>year = 1000, month = 1, day = 1\<rparr> =
     Inr [(ustr ''9991231'', ustr ''https://www.ghanaweb.com/GhanaHomePage/business/browse.archive.php?date=9991231''),
          (ustr ''10000101'', ustr ''https://www.ghanaweb.com/GhanaHomePage/business/browse.archive.php?date=10000101'')] \<and>
   length (ustr ''9991231'') = 7 \<and> \<not> ustr ''9991231'' < ustr ''10000101''"
proof -
  have 1: "valid_date max_date \<and> date_le max_date max_date \<and>
      generate_date_urls max_date max_date = Inl OverflowError"
    by (simp add: generate_date_urls_def gen_loop.simps date_le_def add_day_def days_in_month_def
        is_leap_def valid_date_def max_date_def)
  have 2: "valid_date \<lparr>year = 999, month = 12, day = 31\<rparr> \<and>
      valid_date \<lparr>year = 1000, month = 1, day = 1\<rparr> \<and>
      date_le \<lparr>year = 999, month = 12, day = 31\<rparr> \<lparr>year = 1000, month = 1, day = 1\<rparr>"
    by (simp add: valid_date_def days_in_month_def date_le_def)
  have 3: "generate_date_urls \<lparr>year = 999, month = 12, day = 31\<rparr> \<lparr>year = 1000, month = 1, day = 1\<rparr> =
     Inr [(ustr ''9991231'', ustr ''https://www.ghanaweb.com/GhanaHomePage/business/browse.archive.php?date=9991231''),
          (ustr ''10000101'', ustr ''https://www.ghanaweb.com/GhanaHomePage/business/browse.archive.php?date=10000101'')]"
    by (simp add: generate_date_urls_def gen_loop.simps date_le_def add_day_def days_in_month_def
        is_leap_def Let_def strftime_Ymd_def decimal.simps two_digits_def digit_def listing_url_def
        ustr_def)
  have 4: "length (ustr ''9991231'') = 7 \<and> \<not> ustr ''9991231'' < ustr ''10000101''"
    by (simp add: ustr_def)
  from 1 2 3 4 show ?thesis by simp
qed

section \<open>Properties of the listing extractor and the article fetcher\<close>

lemma find_None_iff: "find_tag P n = None \<longleftrightarrow> (\<forall>d \<in> set (descendants n). \<not> P d)"
proof -
  have "find_tag P n = None \<longleftrightarrow> filter P (descendants n) = []"
    by (simp add: find_tag_def find_all_def split: list.splits)
  then show ?thesis by (simp only: filter_empty_conv)
qed

lemma find_Some_D: "find_tag P n = Some x \<Longrightarrow> x \<in> set (descendants n) \<and> P x"
proof -
  assume "find_tag P n = Some x"
  then obtain xs where "filter P (descendants n) = x # xs"
    by (auto simp: find_tag_def find_all_def split: list.splits)
  then have "x \<in> set (filter P (descendants n))" by simp
  then show ?thesis by simp
qed

lemma has_match_iff: "has_match m s \<longleftrightarrow> (\<exists>u t. s = u @ t \<and> t \<noteq> [] \<and> m t \<noteq> None)"
proof (induction s)
  case Nil
  then show ?case by simp
next
  case (Cons c cs)
  show ?case
  proof
    assume "has_match m (c # cs)"
    then consider "m (c # cs) \<noteq> None" | "has_match m cs" by auto
    then show "\<exists>u t. c # cs = u @ t \<and> t \<noteq> [] \<and> m t \<noteq> None"
    proof cases
      case 1
      then show ?thesis by (intro exI[of _ "[]"] exI[of _ "c # cs"]) simp
    next
      case 2
      with Cons obtain u t where "cs = u @ t" "t \<noteq> []" "m t \<noteq> None" by auto
      then show ?thesis by (intro exI[of _ "c # u"] exI[of _ t]) simp
    qed
  next
    assume "\<exists>u t. c # cs = u @ t \<and> t \<noteq> [] \<and> m t \<noteq> None"
    then obtain u t where ut: "c # cs = u @ t" "t \<noteq> []" "m t \<noteq> None" by auto
    show "has_match m (c # cs)"
    proof (cases u)
      case Nil
      with ut have "m (c # cs) \<noteq> None" by simp
      then show ?thesis by simp
    next
      case (Cons a u')
      with ut have "cs = u' @ t" by simp
      with ut Cons.IH show ?thesis by auto
    qed
  qed
qed

lemma cocoa_match_iff: "cocoa_match t \<noteq> None \<longleftrightarrow> (\<exists>v. map ascii_lower t = ustr ''cocoa'' @ v)"
proof
  assume "cocoa_match t \<noteq> None"
  then have "map ascii_lower (take 5 t) = ustr ''cocoa''" by (simp add: cocoa_match_def split: if_splits)
  then have "map ascii_lower t = ustr ''cocoa'' @ map ascii_lower (drop 5 t)"
    by (metis append_take_drop_id map_append)
  then show "\<exists>v. map ascii_lower t = ustr ''cocoa'' @ v" by blast
next
  assume "\<exists>v. map ascii_lower t = ustr ''cocoa'' @ v"
  then obtain v where v: "map ascii_lower t = ustr ''cocoa'' @ v" by blast
  have "map ascii_lower (take 5 t) = take 5 (map ascii_lower t)" by (simp add: take_map)
  also have "\<dots> = ustr ''cocoa''" unfolding v by (simp add: ustr_def)
  finally show "cocoa_match t \<noteq> None" by (simp add: cocoa_match_def)
qed

lemma re_search_cocoa: "re_search cocoa_match s \<longleftrightarrow> ci_contains (ustr ''cocoa'') s"
proof
  assume "re_search cocoa_match s"
  then obtain u t where ut: "s = u @ t" "cocoa_match t \<noteq> None"
    unfolding re_search_def has_match_iff by blast
  from ut(2) obtain v where "map ascii_lower t = ustr ''cocoa'' @ v"
    unfolding cocoa_match_iff by blast
  with ut(1) have "map ascii_lower s = map ascii_lower u @ ustr ''cocoa'' @ v" by simp
  then show "ci_contains (ustr ''cocoa'') s" unfolding ci_contains_def by blast
next
  assume "ci_contains (ustr ''cocoa'') s"
  then obtain u v where uv: "map ascii_lower s = u @ ustr ''cocoa'' @ v"
    unfolding ci_contains_def by blast
  define s2 where "s2 = drop (length u) s"
  have "map ascii_lower s2 = drop (length u) (map ascii_lower s)" by (simp add: s2_def drop_map)
  also have "\<dots> = ustr ''cocoa'' @ v" unfolding uv by simp
  finally have m: "map ascii_lower s2 = ustr ''cocoa'' @ v" .
  then have "cocoa_match s2 \<noteq> None" unfolding cocoa_match_iff by blast
  moreover from m have "s2 \<noteq> []" by (auto simp: ustr_def)
  moreover have "s = take (length u) s @ s2" by (simp add: s2_def)
  ultimately show "re_search cocoa_match s" unfolding re_search_def has_match_iff by blast
qed

lemmas dom_defs = find_tag_def find_all_def is_tag_def has_class_def get_attr_def
  is_article_container_def is_upper_div_def is_article_paragraph_def is_content_area_def

lemmas stdout_defs = utf8_stdout_def is_surrogate_def surrogates_not_allowed_def hex4_def
  hex_digit_def decimal.simps digit_def

lemmas eval_defs = get_articles_from_listing_page_def get_article_content_def
  get_article_content_except_def dom_defs re_search_def cocoa_match_def ascii_lower_def is_upper_def ustr_def
  all_strings_def get_text_strip_def trimmed_text_def strip_def is_space_def

lemma collect_articles_concat:
  "collect_articles date_str items articles =
     articles @ concat (map (\<lambda>item.
        case find_tag (is_tag (ustr ''a'')) item of
          None \<Rightarrow> []
        | Some link \<Rightarrow>
            (case (get_attr link (ustr ''href''), get_attr link (ustr ''title'')) of
               (Some href, Some title) \<Rightarrow>
                 if ci_contains (ustr ''cocoa'') title
                 then [[(ustr ''date'', date_str), (ustr ''title'', title),
                        (ustr ''url'', if take 4 href = ustr ''http'' then href
                                       else ustr ''https://www.ghanaweb.com'' @ href)]]
                 else []
             | _ \<Rightarrow> [])) items)"
  by (induction items arbitrary: articles) (auto simp: re_search_cocoa split: option.splits)

lemma concat_filter_nonempty: "concat (filter (\<lambda>s. s \<noteq> []) xs) = concat xs"
  by (induction xs) auto

lemma get_text_strip_eq: "get_text_strip = (\<lambda>p. concat (map strip (all_strings p)))"
  by (rule ext) (simp add: get_text_strip_def concat_filter_nonempty)

text \<open>
  The paths through the handlers that the claims below do not cover: a failed fetch of
  a listing page gives the empty list when the handler's line is printed, and a
  \<^verbatim>\<open>print\<close> that raises before the content area is tried enters the handler of the
  article fetcher, whose own \<^verbatim>\<open>print\<close> raises for the same url.
\<close>

lemma listing_fetch_failure:
  assumes "fetch url = Inl msg"
  shows "get_articles_from_listing_page out fetch url date_str =
     (case out (ustr ''Error processing '' @ url @ ustr '': '' @ msg) of
        None \<Rightarrow> Inr []
      | Some raised \<Rightarrow> Inl raised)"
  using assms by (simp add: get_articles_from_listing_page_def split: option.splits)

lemma fallback_print_raises:
  "get_article_content utf8_stdout (\<lambda>u. Inr article_page_example)
     [(ustr ''url'', ustr ''https://example.com/'' @ [55296])] =
   Inl (PyException (ustr ''UnicodeEncodeError'')
          (39 # ustr ''utf-8'' @ 39 # ustr '' codec can'' @ 39 # ustr ''t encode character '' @
           39 # 92 # ustr ''ud800'' @ 39 # ustr '' in position 43: surrogates not allowed''))"
  by (simp add: article_page_example_def content_area_example_def eval_defs stdout_defs)

subsection \<open>Claims about the listing extractor and the article fetcher\<close>

text \<open>
  Claim C5. When the page was fetched and parsed, and the article-list container is
  absent from it, or the first such container has no \<^verbatim>\<open>upper\<close> sub-container, or
  the first such sub-container has no list element, the listing extractor returns the
  empty list, and no exception leaves it.
\<close>

theorem listing_missing_container:
  assumes "fetch url = Inr soup"
    and "(\<forall>d \<in> set (descendants soup). \<not> is_article_container d) \<or>
         (\<exists>c. find_tag is_article_container soup = Some c \<and>
            ((\<forall>d \<in> set (descendants c). \<not> is_upper_div d) \<or>
             (\<exists>u. find_tag is_upper_div c = Some u \<and>
                (\<forall>d \<in> set (descendants u). \<not> is_tag (ustr ''ul'') d))))"
  shows "get_articles_from_listing_page out fetch url date_str = Inr []"
  using assms
  by (auto simp: get_articles_from_listing_page_def find_None_iff[symmetric])

text \<open>The claim at a page without the container; a page without the list gives the same.\<close>

theorem listing_missing_container_witness:
  "list_all (\<lambda>d. \<not> is_article_container d) (descendants page_without_container) \<and>
   get_articles_from_listing_page utf8_stdout (\<lambda>u. Inr page_without_container) (ustr ''u'') (ustr ''20240101'') = Inr [] \<and>
   list_all (\<lambda>d. \<not> is_tag (ustr ''ul'') d) (descendants page_without_list) \<and>
   get_articles_from_listing_page utf8_stdout (\<lambda>u. Inr page_without_list) (ustr ''u'') (ustr ''20240101'') = Inr []"
proof -
  have a: "\<forall>d \<in> set (descendants page_without_container). \<not> is_article_container d"
    by (simp add: page_without_container_def dom_defs ustr_def)
  have b: "\<forall>d \<in> set (descendants page_without_list). \<not> is_tag (ustr ''ul'') d"
    by (simp add: page_without_list_def dom_defs ustr_def)
  from a have 1: "get_articles_from_listing_page utf8_stdout (\<lambda>u. Inr page_without_container) (ustr ''u'') (ustr ''20240101'') = Inr []"
    by (intro listing_missing_container[where soup = page_without_container]) simp_all
  have "get_articles_from_listing_page utf8_stdout (\<lambda>u. Inr page_without_list) (ustr ''u'') (ustr ''20240101'') = Inr []"
    by (simp add: get_articles_from_listing_page_def page_without_list_def dom_defs ustr_def)
  with a b 1 show ?thesis by (simp add: list_all_iff)
qed

text \<open>
  Claim C6, as amended. With the three containers present, the result lists, in document
  order, one reference for every list item whose first anchor has both a
  \<^verbatim>\<open>href\<close> and a \<^verbatim>\<open>title\<close> attribute and whose title contains \<^verbatim>\<open>cocoa\<close>
  without regard to case (anywhere, no word boundary); the url of the reference is the
  href unchanged when the href starts with the four characters \<^verbatim>\<open>http\<close>, and
  otherwise the href prefixed with \<^verbatim>\<open>https://www.ghanaweb.com\<close>.
\<close>

theorem listing_selection:
  assumes "fetch url = Inr soup"
    and "find_tag is_article_container soup = Some article_container"
    and "find_tag is_upper_div article_container = Some upper_div"
    and "find_tag (is_tag (ustr ''ul'')) upper_div = Some article_list"
  shows "get_articles_from_listing_page out fetch url date_str =
     Inr (concat (map (\<lambda>item.
        case find_tag (is_tag (ustr ''a'')) item of
          None \<Rightarrow> []
        | Some link \<Rightarrow>
            (case (get_attr link (ustr ''href''), get_attr link (ustr ''title'')) of
               (Some href, Some title) \<Rightarrow>
                 if ci_contains (ustr ''cocoa'') title
                 then [[(ustr ''date'', date_str), (ustr ''title'', title),
                        (ustr ''url'', if take 4 href = ustr ''http'' then href
                                       else ustr ''https://www.ghanaweb.com'' @ href)]]
                 else []
             | _ \<Rightarrow> [])) (find_all (is_tag (ustr ''li'')) article_list)))"
  using assms by (simp add: get_articles_from_listing_page_def collect_articles_concat)

text \<open>
  The amended claim at a page with a matching title and a relative link, a title that
  does not match, and a matching title in upper case with an absolute link.
\<close>

theorem listing_selection_witness:
  "find_tag is_article_container listing_page_example \<noteq> None \<and>
   get_articles_from_listing_page utf8_stdout (\<lambda>u. Inr listing_page_example) (ustr ''u'') (ustr ''20240101'') =
     Inr [[(ustr ''date'', ustr ''20240101''), (ustr ''title'', ustr ''X Cocoa Prices Rise''),
           (ustr ''url'', ustr ''https://www.ghanaweb.com/business/1.php'')],
          [(ustr ''date'', ustr ''20240101''), (ustr ''title'', ustr ''COCOA board''),
           (ustr ''url'', ustr ''https://example.com/3'')]]"
proof -
  obtain c u l where f:
    "find_tag is_article_container listing_page_example = Some c"
    "find_tag is_upper_div c = Some u" "find_tag (is_tag (ustr ''ul'')) u = Some l"
    "find_all (is_tag (ustr ''li'')) l =
       [Tag (ustr ''li'') [] []
          [Tag (ustr ''a'') []
             [(ustr ''href'', ustr ''/business/1.php''), (ustr ''title'', ustr ''X Cocoa Prices Rise'')]
             [NavigableString (ustr ''X Cocoa Prices Rise'')]],
        Tag (ustr ''li'') [] []
          [Tag (ustr ''a'') []
             [(ustr ''href'', ustr ''/business/2.php''), (ustr ''title'', ustr ''Coffee Outlook'')]
             [NavigableString (ustr ''Coffee Outlook'')]],
        Tag (ustr ''li'') [] []
          [Tag (ustr ''a'') []
             [(ustr ''href'', ustr ''https://example.com/3''), (ustr ''title'', ustr ''COCOA board'')]
             [NavigableString (ustr ''COCOA board'')]]]"
    by (simp add: listing_page_example_def dom_defs ustr_def)
  have c1: "ci_contains (ustr ''cocoa'') (ustr ''X Cocoa Prices Rise'')"
    unfolding re_search_cocoa[symmetric] by (simp add: eval_defs)
  have c2: "\<not> ci_contains (ustr ''cocoa'') (ustr ''Coffee Outlook'')"
    unfolding re_search_cocoa[symmetric] by (simp add: eval_defs)
  have c3: "ci_contains (ustr ''cocoa'') (ustr ''COCOA board'')"
    unfolding re_search_cocoa[symmetric] by (simp add: eval_defs)
  have h: "take 4 (ustr ''/business/1.php'') \<noteq> ustr ''http''"
    "take 4 (ustr ''https://example.com/3'') = ustr ''http''"
    "ustr ''title'' \<noteq> ustr ''href''"
    by (simp_all add: ustr_def)
  from listing_selection[where out = utf8_stdout and fetch = "\<lambda>u. Inr listing_page_example"
        and url = "ustr ''u''" and date_str = "ustr ''20240101''", OF refl f(1) f(2) f(3)]
  have "get_articles_from_listing_page utf8_stdout (\<lambda>u. Inr listing_page_example) (ustr ''u'') (ustr ''20240101'') =
     Inr [[(ustr ''date'', ustr ''20240101''), (ustr ''title'', ustr ''X Cocoa Prices Rise''),
           (ustr ''url'', ustr ''https://www.ghanaweb.com'' @ ustr ''/business/1.php'')],
          [(ustr ''date'', ustr ''20240101''), (ustr ''title'', ustr ''COCOA board''),
           (ustr ''url'', ustr ''https://example.com/3'')]]"
    unfolding f(4) by (simp add: c1 c2 c3 h find_tag_def find_all_def is_tag_def get_attr_def)
  moreover have "ustr ''https://www.ghanaweb.com'' @ ustr ''/business/1.php'' =
      ustr ''https://www.ghanaweb.com/business/1.php''" by (simp add: ustr_def)
  ultimately show ?thesis using f(1) by simp
qed

text \<open>
  Claim C6 as stated fails: the link \<^verbatim>\<open>ftp://example.com/cocoa.pdf\<close> starts with a
  scheme, and its reference does not keep it unchanged but prefixes the origin.
\<close>

theorem listing_scheme_counterexample:
  "starts_with_scheme (ustr ''ftp://example.com/cocoa.pdf'') \<and>
   get_articles_from_listing_page utf8_stdout (\<lambda>u. Inr listing_page_ftp) (ustr ''u'') (ustr ''20240101'') =
     Inr [[(ustr ''date'', ustr ''20240101''), (ustr ''title'', ustr ''Cocoa report''),
           (ustr ''url'', ustr ''https://www.ghanaweb.comftp://example.com/cocoa.pdf'')]]"
proof -
  have "starts_with_scheme (ustr ''ftp://example.com/cocoa.pdf'')"
    by (simp add: starts_with_scheme_def scheme_char_def is_alpha_def is_upper_def is_lower_def
        is_digit_def ustr_def)
  moreover have "get_articles_from_listing_page utf8_stdout (\<lambda>u. Inr listing_page_ftp) (ustr ''u'') (ustr ''20240101'') =
     Inr [[(ustr ''date'', ustr ''20240101''), (ustr ''title'', ustr ''Cocoa report''),
           (ustr ''url'', ustr ''https://www.ghanaweb.comftp://example.com/cocoa.pdf'')]]"
    by (simp add: listing_page_ftp_def listing_list_example_def eval_defs)
  ultimately show ?thesis by simp
qed

text \<open>
  Claim C7, as amended. When the reference has a url, the page was fetched, no
  paragraph with the id \<^verbatim>\<open>article-123\<close> is in it, and the first content-area
  container has at least one paragraph below it, the fetcher first prints that it
  tries the other selectors. When this is printed, the content is set to the texts of
  these paragraphs joined by single blanks, where the text of a paragraph is the
  concatenation of its text nodes, each of them trimmed. When the \<^verbatim>\<open>print\<close> raises,
  the handler runs with that exception.
\<close>

theorem fallback_content:
  assumes "map_of article_info (ustr ''url'') = Some url" and "fetch url = Inr soup"
    and "\<forall>d \<in> set (descendants soup). \<not> is_article_paragraph d"
    and "find_tag is_content_area soup = Some article_div"
    and "find_all (is_tag (ustr ''p'')) article_div \<noteq> []"
  shows "get_article_content out fetch article_info =
     (case out (ustr ''No content found for '' @ url @ ustr '' - trying alternative selectors'') of
        None \<Rightarrow>
          Inr (AList.update (ustr ''content'')
                 (join (ustr '' '')
                    (map (\<lambda>p. concat (map strip (all_strings p)))
                         (find_all (is_tag (ustr ''p'')) article_div)))
                 article_info)
      | Some raised \<Rightarrow> get_article_content_except out article_info url (exc_str raised))"
proof -
  from assms(3) have "find_tag is_article_paragraph soup = None" by (simp add: find_None_iff)
  with assms(1,2,4,5) show ?thesis
    by (simp add: get_article_content_def Let_def get_text_strip_eq split: option.splits)
qed

text \<open>
  The amended claim at a page with two paragraphs, the first with nested markup, and a
  standard output in UTF-8, which prints the message.
\<close>

theorem fallback_content_witness:
  "list_all (\<lambda>d. \<not> is_article_paragraph d) (descendants article_page_example) \<and>
   find_tag is_content_area article_page_example = Some content_area_example \<and>
   length (find_all (is_tag (ustr ''p'')) content_area_example) = 2 \<and>
   utf8_stdout (ustr ''No content found for '' @ ustr ''https://example.com/a'' @
                ustr '' - trying alternative selectors'') = None \<and>
   get_article_content utf8_stdout (\<lambda>u. Inr article_page_example) [(ustr ''url'', ustr ''https://example.com/a'')] =
     Inr [(ustr ''url'', ustr ''https://example.com/a''), (ustr ''content'', ustr ''Cocoapricesrose today'')]"
proof -
  have a: "\<forall>d \<in> set (descendants article_page_example). \<not> is_article_paragraph d"
    by (simp add: article_page_example_def content_area_example_def dom_defs ustr_def)
  have b: "find_tag is_content_area article_page_example = Some content_area_example"
    by (simp add: article_page_example_def content_area_example_def dom_defs ustr_def)
  have c: "find_all (is_tag (ustr ''p'')) content_area_example =
      [Tag (ustr ''p'') [] []
         [NavigableString (ustr '' Cocoa ''),
          Tag (ustr ''b'') [] [] [NavigableString (ustr ''prices'')],
          NavigableString (ustr '' rose '')],
       Tag (ustr ''p'') [] [] [NavigableString (ustr '' today '')]]"
    by (simp add: content_area_example_def dom_defs ustr_def)
  then have d: "find_all (is_tag (ustr ''p'')) content_area_example \<noteq> []" by simp
  have m: "map_of [(ustr ''url'', ustr ''https://example.com/a'')] (ustr ''url'') = Some (ustr ''https://example.com/a'')"
    by simp
  have p: "utf8_stdout (ustr ''No content found for '' @ ustr ''https://example.com/a'' @
                ustr '' - trying alternative selectors'') = None"
    by (simp add: utf8_stdout_def is_surrogate_def ustr_def)
  have "get_article_content utf8_stdout (\<lambda>u. Inr article_page_example) [(ustr ''url'', ustr ''https://example.com/a'')] =
     (case utf8_stdout (ustr ''No content found for '' @ ustr ''https://example.com/a'' @
                ustr '' - trying alternative selectors'') of
        None \<Rightarrow>
          Inr (AList.update (ustr ''content'')
                 (join (ustr '' '')
                    (map (\<lambda>p. concat (map strip (all_strings p)))
                         (find_all (is_tag (ustr ''p'')) content_area_example)))
                 [(ustr ''url'', ustr ''https://example.com/a'')])
      | Some raised \<Rightarrow>
          get_article_content_except utf8_stdout [(ustr ''url'', ustr ''https://example.com/a'')]
            (ustr ''https://example.com/a'') (exc_str raised))"
    using m refl a b d by (rule fallback_content)
  also have "\<dots> = Inr (AList.update (ustr ''content'')
                 (join (ustr '' '')
                    (map (\<lambda>p. concat (map strip (all_strings p)))
                         (find_all (is_tag (ustr ''p'')) content_area_example)))
                 [(ustr ''url'', ustr ''https://example.com/a'')])"
    unfolding p by simp
  also have "\<dots> = Inr [(ustr ''url'', ustr ''https://example.com/a''), (ustr ''content'', ustr ''Cocoapricesrose today'')]"
    unfolding c by (simp add: all_strings_def strip_def is_space_def ustr_def)
  finally show ?thesis using a b c p by (simp add: list_all_iff)
qed

text \<open>
  Claim C7 as stated fails: at that page the content is \<^verbatim>\<open>Cocoapricesrose today\<close>,
  while the trimmed texts of the paragraphs joined by single blanks are
  \<^verbatim>\<open>Cocoa prices rose today\<close>.
\<close>

theorem fallback_content_not_trimmed_text:
  "find_tag is_article_paragraph article_page_example = None \<and>
   find_tag is_content_area article_page_example = Some content_area_example \<and>
   length (find_all (is_tag (ustr ''p'')) content_area_example) = 2 \<and>
   get_article_content utf8_stdout (\<lambda>u. Inr article_page_example) [(ustr ''url'', ustr ''https://example.com/a'')] =
     Inr [(ustr ''url'', ustr ''https://example.com/a''), (ustr ''content'', ustr ''Cocoapricesrose today'')] \<and>
   join (ustr '' '') (map trimmed_text (find_all (is_tag (ustr ''p'')) content_area_example)) =
     ustr ''Cocoa prices rose today''"
  by (simp add: article_page_example_def content_area_example_def eval_defs utf8_stdout_def is_surrogate_def)




section \<open>Properties of the normalize and score stage\<close>

lemma select_rows_map: "select_rows keep (map f xs) = map f (select_rows keep xs)"
proof (induction keep arbitrary: xs)
  case Nil
  then show ?case by (simp add: select_rows_def)
next
  case (Cons k keep)
  then show ?case by (cases xs) (auto simp: select_rows_def)
qed

lemma select_rows_self: "select_rows (map P xs) xs = filter P xs"
  by (induction xs) (auto simp: select_rows_def)

lemma length_select_rows:
  "length xs = length ys \<Longrightarrow> length (select_rows keep xs) = length (select_rows keep ys)"
proof (induction keep arbitrary: xs ys)
  case Nil
  then show ?case by (simp add: select_rows_def)
next
  case (Cons k keep)
  then show ?case by (cases xs; cases ys) (auto simp: select_rows_def)
qed

lemma store_prefix_update: "length h \<le> i \<Longrightarrow> take (length h) (g[i := x]) = take (length h) g"
  by simp

lemma column_keys:
  "ustr ''title'' \<noteq> ustr ''date''" "ustr ''content'' \<noteq> ustr ''date''"
  "ustr ''content'' \<noteq> ustr ''title''" "ustr ''url'' \<noteq> ustr ''date''"
  "ustr ''url'' \<noteq> ustr ''title''" "ustr ''url'' \<noteq> ustr ''content''"
  "ustr ''sentiment_score'' \<noteq> ustr ''date''" "ustr ''sentiment_score'' \<noteq> ustr ''title''"
  "ustr ''sentiment_score'' \<noteq> ustr ''content''" "ustr ''sentiment_score'' \<noteq> ustr ''url''"
  by (simp_all add: ustr_def)

lemmas column_keys_sym = column_keys column_keys[symmetric]

lemma strip_not_empty_clean:
  "map strip_not_empty (map (\<lambda>v. PyStr (clean_text U v)) vs) = map (\<lambda>v. strip (clean_text U v) \<noteq> []) vs"
  by (simp add: strip_not_empty_def)

subsection \<open>Claims about \<^verbatim>\<open>clean_dataframe_add_sentiment\<close>\<close>

text \<open>
  Claim C9. For a table with the columns \<^verbatim>\<open>date, title, content, url\<close> (as the
  driver builds it), the function returns a new table in which exactly the rows
  whose cleaned content is not empty after stripping are kept, in their order; the
  row labels are \<open>0, 1, ...\<close> again; title and content are cleaned; every kept
  row has a sentiment score, computed from its cleaned content; and what is exported
  is the list of (date, sentiment score) pairs of the kept rows.
\<close>

theorem normalize_score_stage:
  assumes "df < length h"
    and "h ! df = \<lparr>index = idx, columns = [(ustr ''date'', dates), (ustr ''title'', titles),
                       (ustr ''content'', contents), (ustr ''url'', urls)]\<rparr>"
    and "length idx = length contents"
    and "keep = map (\<lambda>v. strip (clean_text U v) \<noteq> []) contents"
  shows "\<exists>h' r. clean_dataframe_add_sentiment U score h df = (h', Inr r) \<and>
     h' ! r =
       \<lparr>index = map int [0..<length (select_rows keep contents)],
        columns =
          [(ustr ''date'', select_rows keep dates),
           (ustr ''title'', map (\<lambda>v. PyStr (clean_text U v)) (select_rows keep titles)),
           (ustr ''content'', map (\<lambda>v. PyStr (clean_text U v)) (select_rows keep contents)),
           (ustr ''url'', select_rows keep urls),
           (ustr ''sentiment_score'',
              map (\<lambda>v. score (PyStr (clean_text U v))) (select_rows keep contents))]\<rparr> \<and>
     select_rows keep contents = filter (\<lambda>v. strip (clean_text U v) \<noteq> []) contents \<and>
     export_rows (h' ! r) =
       Inr (zip (select_rows keep dates)
                (map (\<lambda>v. score (PyStr (clean_text U v))) (select_rows keep contents)))"
proof -
  have len: "length (select_rows keep idx) = length (select_rows keep contents)"
    using assms(3) by (rule length_select_rows)
  have sel: "select_rows keep contents = filter (\<lambda>v. strip (clean_text U v) \<noteq> []) contents"
    unfolding assms(4) by (rule select_rows_self)
  have run: "clean_dataframe_add_sentiment U score h df =
      (fst (clean_dataframe_add_sentiment U score h df), Inr (Suc (Suc (length h))))"
    using assms(1,2)
    by (simp add: clean_dataframe_add_sentiment_def Let_def column_def set_column_def
        boolean_mask_def reset_index_def nth_append column_keys_sym)
  have res: "fst (clean_dataframe_add_sentiment U score h df) ! Suc (Suc (length h)) =
       \<lparr>index = map int [0..<length (select_rows keep contents)],
        columns =
          [(ustr ''date'', select_rows keep dates),
           (ustr ''title'', map (\<lambda>v. PyStr (clean_text U v)) (select_rows keep titles)),
           (ustr ''content'', map (\<lambda>v. PyStr (clean_text U v)) (select_rows keep contents)),
           (ustr ''url'', select_rows keep urls),
           (ustr ''sentiment_score'',
              map (\<lambda>v. score (PyStr (clean_text U v))) (select_rows keep contents))]\<rparr>"
    using assms(1,2) len
    by (simp add: clean_dataframe_add_sentiment_def Let_def column_def set_column_def
        boolean_mask_def reset_index_def nth_append column_keys_sym strip_not_empty_def
        select_rows_map assms(4)[symmetric] comp_def)
  have ex: "export_rows (fst (clean_dataframe_add_sentiment U score h df) ! Suc (Suc (length h))) =
       Inr (zip (select_rows keep dates)
                (map (\<lambda>v. score (PyStr (clean_text U v))) (select_rows keep contents)))"
    unfolding res by (simp add: export_rows_def column_def column_keys_sym)
  from run res sel ex show ?thesis by blast
qed

text \<open>
  The claim at a table of three rows, the second of which has a content that cleans to
  the empty string; the row with the error text of a failed fetch is kept and scored.
\<close>

theorem normalize_score_stage_witness:
  "\<forall>U score. \<exists>h' r.
     clean_dataframe_add_sentiment U score [table_example] 0 = (h', Inr r) \<and>
     h' ! r =
       \<lparr>index = [0, 1],
        columns =
          [(ustr ''date'', [PyOther 1, PyOther 2]),
           (ustr ''title'', [PyStr (ustr ''cocoa prices rise''), PyStr (ustr ''cocoa board'')]),
           (ustr ''content'', [PyStr (ustr ''cocoa prices rose 5 today''), PyStr (ustr ''error timed out'')]),
           (ustr ''url'', [PyStr (ustr ''u1''), PyStr (ustr ''u3'')]),
           (ustr ''sentiment_score'',
              [score (PyStr (ustr ''cocoa prices rose 5 today'')), score (PyStr (ustr ''error timed out''))])]\<rparr> \<and>
     export_rows (h' ! r) =
       Inr [(PyOther 1, score (PyStr (ustr ''cocoa prices rose 5 today''))),
            (PyOther 2, score (PyStr (ustr ''error timed out'')))]"
proof (intro allI)
  fix U :: unicode_db and score :: "pyobj \<Rightarrow> pyobj"
  let ?contents = "[PyStr (ustr ''Cocoa prices rose 5% today''), PyStr (ustr '' ... ''), PyStr (ustr ''Error: timed out'')]"
  have c1: "clean_text U (PyStr (ustr ''Cocoa prices rose 5% today'')) = ustr ''cocoa prices rose 5 today''"
    by (simp add: clean_defs match_defs char_defs)
  have c2: "clean_text U (PyStr (ustr '' ... '')) = []"
    by (simp add: clean_defs match_defs char_defs)
  have c3: "clean_text U (PyStr (ustr ''Error: timed out'')) = ustr ''error timed out''"
    by (simp add: clean_defs match_defs char_defs)
  have t1: "clean_text U (PyStr (ustr ''Cocoa Prices Rise'')) = ustr ''cocoa prices rise''"
    by (simp add: clean_defs match_defs char_defs)
  have t3: "clean_text U (PyStr (ustr ''COCOA board'')) = ustr ''cocoa board''"
    by (simp add: clean_defs match_defs char_defs)
  have s1: "strip (ustr ''cocoa prices rose 5 today'') \<noteq> []" "strip (ustr ''error timed out'') \<noteq> []"
    by (simp_all add: strip_def ustr_def is_space_def)
  have k: "[True, False, True] = map (\<lambda>v. strip (clean_text U v) \<noteq> []) ?contents"
    by (simp add: c1 c2 c3 s1) (simp add: strip_def)
  have d: "[table_example] ! 0 = \<lparr>index = [0, 1, 2], columns =
      [(ustr ''date'', [PyOther 1, PyOther 1, PyOther 2]),
       (ustr ''title'', [PyStr (ustr ''Cocoa Prices Rise''), PyStr (ustr ''Cocoa!''), PyStr (ustr ''COCOA board'')]),
       (ustr ''content'', ?contents),
       (ustr ''url'', [PyStr (ustr ''u1''), PyStr (ustr ''u2''), PyStr (ustr ''u3'')])]\<rparr>"
    by (simp add: table_example_def)
  from normalize_score_stage[where df = 0 and h = "[table_example]" and U = U and score = score, OF _ d _ k]
  show "\<exists>h' r.
     clean_dataframe_add_sentiment U score [table_example] 0 = (h', Inr r) \<and>
     h' ! r =
       \<lparr>index = [0, 1],
        columns =
          [(ustr ''date'', [PyOther 1, PyOther 2]),
           (ustr ''title'', [PyStr (ustr ''cocoa prices rise''), PyStr (ustr ''cocoa board'')]),
           (ustr ''content'', [PyStr (ustr ''cocoa prices rose 5 today''), PyStr (ustr ''error timed out'')]),
           (ustr ''url'', [PyStr (ustr ''u1''), PyStr (ustr ''u3'')]),
           (ustr ''sentiment_score'',
              [score (PyStr (ustr ''cocoa prices rose 5 today'')), score (PyStr (ustr ''error timed out''))])]\<rparr> \<and>
     export_rows (h' ! r) =
       Inr [(PyOther 1, score (PyStr (ustr ''cocoa prices rose 5 today''))),
            (PyOther 2, score (PyStr (ustr ''error timed out'')))]"
    by (simp add: select_rows_def c1 c3 t1 t3) blast
qed

text \<open>
  Claim C10. Whatever the store and the address passed: every table the caller had is
  the same after the call (the store before the call is a prefix of the store after
  it), and a result is a table that did not exist before the call.
\<close>

theorem caller_frames_unchanged:
  "take (length h) (fst (clean_dataframe_add_sentiment U score h df)) = h \<and>
   (case snd (clean_dataframe_add_sentiment U score h df) of
      Inr r \<Rightarrow> length h < r \<and> r < length (fst (clean_dataframe_add_sentiment U score h df))
    | Inl e \<Rightarrow> True)"
  by (simp add: clean_dataframe_add_sentiment_def Let_def split: option.splits)

end
